theory Spec2Isabelle
  imports Complex_Main "HOL-Library.Word" "HOL-Library.Monad_Syntax" "HOL-Library.Log_Nat"
begin

unbundle bit_operations_syntax

section \<open>Embedding of src/lib/exporter.ts\<close>

text \<open>
  JavaScript numbers are IEEE binary64 values. The type \<open>number\<close> below has the finite
  values, the two infinities and NaN, with the arithmetic of the language: every sum
  and product is rounded to the nearest binary64 value, ties to even. Weight decoding
  and ground alignment, whose specified properties depend on the rounding, are
  modelled on this type (\<open>decodeWeight64\<close>, \<open>transformTriangles64\<close>), and so are the
  position buffer that \<open>collectTriangles\<close> reads and the test of \<open>isValidVertex\<close>.

  The vector and matrix arithmetic of the pose resolver and of the mesh encoder is
  modelled in exact arithmetic on \<^typ>\<open>real\<close>; \<open>decodeWeight\<close> and \<open>transformTriangles\<close> on
  \<^typ>\<open>real\<close> are the exact counterparts that this part of the model calls. An array
  read out of range gives \<open>undefined\<close>, modelled as \<open>None\<close>. Integers stored through a
  \<open>DataView\<close> or a typed array are machine words. A call that can throw returns an
  \<open>option\<close>, with \<open>None\<close> for the exception.
\<close>

subsection \<open>Numbers\<close>

text \<open>\<open>Math.trunc\<close>: rounding towards zero, which is how \<open>%\<close> picks its quotient.\<close>

definition js_trunc :: "real \<Rightarrow> int" where
  "js_trunc x = (if x < 0 then \<lceil>x\<rceil> else \<lfloor>x\<rfloor>)"

text \<open>
  The remainder operator \<open>n % m\<close> on numbers: the result has the sign of the dividend.
  The source only divides by the literal 2.
\<close>

definition js_rem :: "real \<Rightarrow> real \<Rightarrow> real" where
  "js_rem n m = n - m * of_int (js_trunc (n / m))"

subsection \<open>Binary64 numbers\<close>

text \<open>
  The values of the type Number. \<open>Num x\<close> is the finite value \<open>x\<close>; the two zeros of
  the format are the one value \<open>Num 0\<close>: the functions modelled on this type never
  divide and never inspect the sign of a zero.
\<close>

datatype number = Num real | PInf | NInf | NaN

text \<open>
  Rounding to nearest, ties to even. \<open>ilog2 x\<close> is the exponent of the leading bit of a
  positive \<open>x\<close>, and \<open>expo x\<close> the exponent of the last of the 53 bits that the format
  keeps for \<open>x\<close>: 52 places below the leading bit, and never below the exponent -1074
  of the subnormal numbers. \<open>rnd x\<close> rounds \<open>x\<close> to a multiple of \<open>2 powi expo x\<close>, and
  \<open>round64\<close> turns a result of magnitude \<open>2 ^ 1024\<close> or more into an infinity.
\<close>

definition ilog2 :: "real \<Rightarrow> int" where
  "ilog2 x = (if 1 \<le> x then bitlen \<lfloor>x\<rfloor> - 1 else - bitlen (\<lceil>1 / x\<rceil> - 1))"

definition expo :: "real \<Rightarrow> int" where
  "expo x = max (ilog2 \<bar>x\<bar> - 52) (- 1074)"

definition round_even :: "real \<Rightarrow> int" where
  "round_even t =
     (let f = \<lfloor>t\<rfloor>; d = t - of_int f
      in if d < 1 / 2 then f else if 1 / 2 < d then f + 1 else if even f then f else f + 1)"

definition rnd :: "real \<Rightarrow> real" where
  "rnd x = of_int (round_even (x / 2 powi expo x)) * 2 powi expo x"

definition round64 :: "real \<Rightarrow> number" where
  "round64 x =
     (let r = rnd x
      in if 2 ^ 1024 \<le> \<bar>r\<bar> then (if 0 < x then PInf else NInf) else Num r)"

text \<open>A real number that is a finite binary64 value: rounding leaves it as it is.\<close>

definition is_binary64 :: "real \<Rightarrow> bool" where
  "is_binary64 x = (round64 x = Num x)"

text \<open>
  The operators \<open>+\<close>, unary and binary \<open>-\<close>, \<open>*\<close> and \<open>%\<close>, and \<open>Math.abs\<close> and \<open>Math.min\<close>.
  The remainder of two finite numbers is a binary64 value and is not rounded.
\<close>

fun add64 :: "number \<Rightarrow> number \<Rightarrow> number" where
  "add64 (Num x) (Num y) = round64 (x + y)"
| "add64 NaN b = NaN"
| "add64 a NaN = NaN"
| "add64 PInf NInf = NaN"
| "add64 NInf PInf = NaN"
| "add64 PInf b = PInf"
| "add64 a PInf = PInf"
| "add64 NInf b = NInf"
| "add64 a NInf = NInf"

fun neg64 :: "number \<Rightarrow> number" where
  "neg64 (Num x) = Num (- x)"
| "neg64 PInf = NInf"
| "neg64 NInf = PInf"
| "neg64 NaN = NaN"

definition sub64 :: "number \<Rightarrow> number \<Rightarrow> number" where
  "sub64 a b = add64 a (neg64 b)"

fun sign64 :: "number \<Rightarrow> int" where
  "sign64 (Num x) = (if 0 < x then 1 else if x < 0 then - 1 else 0)"
| "sign64 PInf = 1"
| "sign64 NInf = - 1"
| "sign64 NaN = 0"

fun mul64 :: "number \<Rightarrow> number \<Rightarrow> number" where
  "mul64 (Num x) (Num y) = round64 (x * y)"
| "mul64 a b =
     (if sign64 a * sign64 b = 0 then NaN
      else if 0 < sign64 a * sign64 b then PInf else NInf)"

fun rem64 :: "number \<Rightarrow> number \<Rightarrow> number" where
  "rem64 (Num x) (Num y) = (if y = 0 then NaN else Num (js_rem x y))"
| "rem64 (Num x) PInf = Num x"
| "rem64 (Num x) NInf = Num x"
| "rem64 a b = NaN"

fun abs64 :: "number \<Rightarrow> number" where
  "abs64 (Num x) = Num \<bar>x\<bar>"
| "abs64 PInf = PInf"
| "abs64 NInf = PInf"
| "abs64 NaN = NaN"

fun min64 :: "number \<Rightarrow> number \<Rightarrow> number" where
  "min64 (Num x) (Num y) = Num (min x y)"
| "min64 NaN b = NaN"
| "min64 a NaN = NaN"
| "min64 NInf b = NInf"
| "min64 a NInf = NInf"
| "min64 PInf b = b"
| "min64 a PInf = a"

text \<open>The comparisons \<open>a < b\<close> and \<open>a <= b\<close>, false when an operand is NaN.\<close>

definition less64 :: "number \<Rightarrow> number \<Rightarrow> bool" where
  "less64 a b =
     (case (a, b) of
        (Num x, Num y) \<Rightarrow> x < y
      | (NaN, _) \<Rightarrow> False
      | (_, NaN) \<Rightarrow> False
      | (PInf, _) \<Rightarrow> False
      | (_, NInf) \<Rightarrow> False
      | _ \<Rightarrow> True)"

definition le64 :: "number \<Rightarrow> number \<Rightarrow> bool" where
  "le64 a b =
     (case (a, b) of
        (Num x, Num y) \<Rightarrow> x \<le> y
      | (NaN, _) \<Rightarrow> False
      | (_, NaN) \<Rightarrow> False
      | (NInf, _) \<Rightarrow> True
      | (_, PInf) \<Rightarrow> True
      | _ \<Rightarrow> False)"

subsection \<open>Skin weights\<close>

text \<open>
  \<^verbatim>\<open>function decodeWeight(encodedWeight) {
    const mod = (n, m) => ((n % m) + m) % m
    return Math.abs(mod(encodedWeight + 1, 2) - 1) }\<close>
\<close>

definition decodeWeight64 :: "number \<Rightarrow> number" where
  "decodeWeight64 encodedWeight =
     (let modp = (\<lambda>n m. rem64 (add64 (rem64 n m) m) m)
      in abs64 (sub64 (modp (add64 encodedWeight (Num 1)) (Num 2)) (Num 1)))"

text \<open>The same function in exact arithmetic, as the model of the pose resolver calls it.\<close>

definition decodeWeight :: "real \<Rightarrow> real" where
  "decodeWeight encodedWeight =
     (let modp = (\<lambda>n m. js_rem (js_rem n m + m) m)
      in \<bar>modp (encodedWeight + 1) 2 - 1\<bar>)"

subsection \<open>Strings\<close>

text \<open>
  A JavaScript string is a sequence of UTF-16 code units. \<open>str\<close> reads an ASCII literal.
\<close>

type_synonym js_string = "16 word list"

definition str :: "string \<Rightarrow> js_string" where
  "str s = map (\<lambda>c. of_nat (of_char c)) s"

text \<open>
  \<open>String.prototype.toLowerCase\<close> on the ASCII letters; other code units are kept. The
  source only searches lower-cased names for ASCII words without \<open>i\<close> or \<open>k\<close>, the two
  letters that a non-ASCII character can lower-case to, so the tests of the source
  give the same answers as under the full Unicode mapping.
\<close>

definition toLowerCase :: "js_string \<Rightarrow> js_string" where
  "toLowerCase s = map (\<lambda>c. if 65 \<le> c \<and> c \<le> 90 then c + 32 else c) s"

definition startsWith :: "js_string \<Rightarrow> js_string \<Rightarrow> bool" where
  "startsWith s p = (take (length p) s = p)"

fun includes_str :: "js_string \<Rightarrow> js_string \<Rightarrow> bool" where
  "includes_str [] p = (p = [])"
| "includes_str (c # cs) p = (startsWith (c # cs) p \<or> includes_str cs p)"

subsection \<open>The renderer's vectors and matrices\<close>

text \<open>
  \<open>Matrix4.elements\<close> is an array of numbers; a matrix is modelled by it. \<open>RK\<close> is a global
  of the host page, not code of the repository: its matrix operations are parameters
  of the model. \<open>Matrix4_new\<close> is what \<open>new RK.Matrix4()\<close> returns (the host library
  constructs the identity), \<open>multiply a b\<close> the value of \<open>a\<close> after \<open>a.multiply(b)\<close>, and
  \<open>applyMatrix4 v m\<close> the value of \<open>v\<close> after \<open>v.applyMatrix4(m)\<close>.
\<close>

type_synonym Matrix4 = "real list"

datatype Vec3 = Vec3 (vec_x: real) (vec_y: real) (vec_z: real)

record RK =
  Matrix4_new :: Matrix4
  multiply :: "Matrix4 \<Rightarrow> Matrix4 \<Rightarrow> Matrix4"
  applyMatrix4 :: "Vec3 \<Rightarrow> Matrix4 \<Rightarrow> Vec3"

text \<open>\<open>this.addScaledVector(v, s)\<close> and \<open>this.divideScalar(s)\<close>, componentwise.\<close>

definition addScaledVector :: "Vec3 \<Rightarrow> Vec3 \<Rightarrow> real \<Rightarrow> Vec3" where
  "addScaledVector a v s =
     Vec3 (vec_x a + vec_x v * s) (vec_y a + vec_y v * s) (vec_z a + vec_z v * s)"

definition divideScalar :: "Vec3 \<Rightarrow> real \<Rightarrow> Vec3" where
  "divideScalar a s = Vec3 (vec_x a / s) (vec_y a / s) (vec_z a / s)"

subsection \<open>Scene types\<close>

text \<open>
  A field is an \<open>option\<close> where the interface declares it optional or where the source
  tests it for presence before use.
\<close>

record BufferAttribute =
  count :: nat
  getX :: "nat \<Rightarrow> real"
  getY :: "nat \<Rightarrow> real"
  getZ :: "nat \<Rightarrow> real"
  getW :: "nat \<Rightarrow> real"

record BufferGeometry =
  geometry_type :: js_string
  position :: "BufferAttribute option"
  skin0 :: "BufferAttribute option"
  skin1 :: "BufferAttribute option"
  skin2 :: "BufferAttribute option"
  skin3 :: "BufferAttribute option"
  index :: "int list option"
  morphPosition :: "BufferAttribute list option"

record Bone =
  bone_matrixWorld :: "Matrix4 option"
  getMatrixWorld :: "Matrix4 option option"

record Skeleton =
  bones :: "Bone option list option"
  boneInverses :: "Matrix4 option list option"

datatype Mesh = Mesh
  (isMesh: bool)
  (isSkinnedMesh: bool)
  (visible: bool)
  (name: "js_string option")
  (geometry: "BufferGeometry option")
  (skeleton: "Skeleton option")
  (matrixWorld: Matrix4)
  (bindMatrix: "Matrix4 option")
  (bindMatrixInverse: "Matrix4 option")
  (morphTargetInfluences: "real list option")
  (children: "Mesh list option")

text \<open>\<open>a[i]\<close> on an array: \<open>undefined\<close> outside the array and at a hole.\<close>

definition array_at :: "'a option list \<Rightarrow> int \<Rightarrow> 'a option" where
  "array_at a i = (if 0 \<le> i \<and> i < int (length a) then a ! nat i else None)"

text \<open>\<open>geometry.attributes[`skin${i}`]\<close> for the loop index \<open>i\<close>.\<close>

definition attributes_skin :: "BufferGeometry \<Rightarrow> nat \<Rightarrow> BufferAttribute option" where
  "attributes_skin g i =
     (if i = 0 then skin0 g else if i = 1 then skin1 g
      else if i = 2 then skin2 g else if i = 3 then skin3 g else None)"

subsection \<open>Skinning\<close>

text \<open>
  \<open>getBoneMatrix(skeleton, boneIndex)\<close>. The second read of \<open>skeleton.bones\<close> is only
  reached when the array exists (otherwise \<open>maxBoneIndex\<close> is -1 and every index has
  returned already). \<open>getMatrixWorld\<close> is \<open>None\<close> when the bone has no such method and
  otherwise what the call returns. \<open>boneWorld_of\<close> is the expression
  \<open>bone.matrixWorld || (bone.getMatrixWorld ? bone.getMatrixWorld() : null)\<close>.
\<close>

definition boneWorld_of :: "Bone \<Rightarrow> Matrix4 option" where
  "boneWorld_of b =
     (case bone_matrixWorld b of
        Some m \<Rightarrow> Some m
      | None \<Rightarrow> (case getMatrixWorld b of Some r \<Rightarrow> r | None \<Rightarrow> None))"

definition getBoneMatrix :: "RK \<Rightarrow> Skeleton \<Rightarrow> int \<Rightarrow> Matrix4" where
  "getBoneMatrix rk skel boneIndex =
     (let tempMatrix = Matrix4_new rk;
          maxBoneIndex = (case bones skel of Some bs \<Rightarrow> int (length bs) - 1 | None \<Rightarrow> - 1)
      in if boneIndex < 0 \<or> boneIndex > maxBoneIndex then tempMatrix
         else
           let bone = (case bones skel of Some bs \<Rightarrow> array_at bs boneIndex | None \<Rightarrow> None);
               boneInverse =
                 (case boneInverses skel of Some ivs \<Rightarrow> array_at ivs boneIndex | None \<Rightarrow> None)
           in case (bone, boneInverse) of
                (Some b, Some binv) \<Rightarrow>
                  (case boneWorld_of b of
                     Some w \<Rightarrow> multiply rk w binv
                   | None \<Rightarrow> tempMatrix)
              | _ \<Rightarrow> tempMatrix)"

text \<open>
  \<open>isIdentityMatrix(matrix)\<close>. An element read past the end of \<open>elements\<close> is
  \<open>undefined\<close>, its distance from anything is NaN and the comparison is false.
\<close>

definition near :: "Matrix4 \<Rightarrow> nat \<Rightarrow> real \<Rightarrow> bool" where
  "near e k c = (k < length e \<and> \<bar>e ! k - c\<bar> < 0.0001)"

definition isIdentityMatrix :: "Matrix4 option \<Rightarrow> bool" where
  "isIdentityMatrix matrix =
     (case matrix of
        None \<Rightarrow> True
      | Some e \<Rightarrow>
          near e 0 1 \<and> near e 1 0 \<and> near e 2 0 \<and> near e 3 0 \<and>
          near e 4 0 \<and> near e 5 1 \<and> near e 6 0 \<and> near e 7 0 \<and>
          near e 8 0 \<and> near e 9 0 \<and> near e 10 1 \<and> near e 11 0 \<and>
          near e 12 0 \<and> near e 13 0 \<and> near e 14 0 \<and> near e 15 1)"

text \<open>The attributes \<open>skin0\<close> .. \<open>skin3\<close> that are present, in this order.\<close>

definition skinAttrs_of :: "BufferGeometry \<Rightarrow> BufferAttribute list" where
  "skinAttrs_of g =
     concat (map (\<lambda>i. case attributes_skin g i of Some a \<Rightarrow> [a] | None \<Rightarrow> []) [0..<4])"

text \<open>
  One \<open>if (weight > 0.0001) { ... }\<close> block of the loop: the state is
  \<open>(skinned, skinSum)\<close>.
\<close>

definition skin_influence ::
  "RK \<Rightarrow> Skeleton \<Rightarrow> Vec3 \<Rightarrow> int \<Rightarrow> real \<Rightarrow> Vec3 \<times> real \<Rightarrow> Vec3 \<times> real" where
  "skin_influence rk skel skinVert boneIdx weight st =
     (if weight > 0.0001 then
        let boneMatrix = getBoneMatrix rk skel boneIdx;
            transformed = applyMatrix4 rk skinVert boneMatrix
        in (addScaledVector (fst st) transformed weight, snd st + weight)
      else st)"

fun skin_loop ::
  "RK \<Rightarrow> Skeleton \<Rightarrow> Vec3 \<Rightarrow> nat \<Rightarrow> BufferAttribute list \<Rightarrow> Vec3 \<times> real \<Rightarrow> Vec3 \<times> real" where
  "skin_loop rk skel skinVert vertexIndex [] st = st"
| "skin_loop rk skel skinVert vertexIndex (skinAttr # rest) st =
     (let boneIdx0 = \<lfloor>getX skinAttr vertexIndex\<rfloor>;
          weight0 = decodeWeight (getY skinAttr vertexIndex);
          boneIdx1 = \<lfloor>getZ skinAttr vertexIndex\<rfloor>;
          weight1 = decodeWeight (getW skinAttr vertexIndex);
          st0 = skin_influence rk skel skinVert boneIdx0 weight0 st;
          st1 = skin_influence rk skel skinVert boneIdx1 weight1 st0
      in skin_loop rk skel skinVert vertexIndex rest st1)"

text \<open>
  The decoded (bone index, weight) pairs of a vertex, two per attribute, in the order
  in which the loop visits them. Used to state properties of the loop.
\<close>

definition skin_pairs :: "BufferAttribute list \<Rightarrow> nat \<Rightarrow> (int \<times> real) list" where
  "skin_pairs attrs vertexIndex =
     concat (map (\<lambda>a. [(\<lfloor>getX a vertexIndex\<rfloor>, decodeWeight (getY a vertexIndex)),
                        (\<lfloor>getZ a vertexIndex\<rfloor>, decodeWeight (getW a vertexIndex))]) attrs)"

text \<open>
  \<open>skinVertexWithPosition(mesh, vertexIndex, x, y, z)\<close>. Reading the attributes of a
  missing geometry throws, which is \<open>None\<close>.
\<close>

definition skinVertexWithPosition ::
  "RK \<Rightarrow> Mesh \<Rightarrow> nat \<Rightarrow> real \<Rightarrow> real \<Rightarrow> real \<Rightarrow> Vec3 option" where
  "skinVertexWithPosition rk mesh vertexIndex x y z =
     (case geometry mesh of
        None \<Rightarrow> None
      | Some g \<Rightarrow>
          let pos = Vec3 x y z;
              skinAttrs = skinAttrs_of g
          in case (skinAttrs, skeleton mesh) of
               ([], _) \<Rightarrow> Some (applyMatrix4 rk pos (matrixWorld mesh))
             | (_, None) \<Rightarrow> Some (applyMatrix4 rk pos (matrixWorld mesh))
             | (_, Some sk) \<Rightarrow>
                 let bindIsIdentity = isIdentityMatrix (bindMatrix mesh);
                     skinVert =
                       (case bindMatrix mesh of
                          Some bm \<Rightarrow> if \<not> bindIsIdentity then applyMatrix4 rk pos bm else pos
                        | None \<Rightarrow> pos);
                     st = skin_loop rk sk skinVert vertexIndex skinAttrs (Vec3 0 0 0, 0);
                     skinned = (if snd st > 0.0001 then divideScalar (fst st) (snd st) else skinVert)
                 in Some
                      (case bindMatrixInverse mesh of
                         Some bmi \<Rightarrow> if \<not> bindIsIdentity then applyMatrix4 rk skinned bmi else skinned
                       | None \<Rightarrow> skinned))"

subsection \<open>Scene query\<close>

text \<open>\<open>(s || '')\<close> for a string that may be \<open>undefined\<close>.\<close>

definition or_empty :: "js_string option \<Rightarrow> js_string" where
  "or_empty s = (case s of Some t \<Rightarrow> t | None \<Rightarrow> [])"

definition isBaseMesh :: "js_string option \<Rightarrow> js_string option \<Rightarrow> bool" where
  "isBaseMesh slotName meshName =
     (let lowerSlot = toLowerCase (or_empty slotName);
          lowerName = toLowerCase (or_empty meshName)
      in startsWith lowerSlot (str ''base'') \<or>
         startsWith lowerName (str ''base'') \<or>
         includes_str lowerSlot (str ''pedestal'') \<or>
         includes_str lowerName (str ''pedestal''))"

text \<open>The five words that exclude a name, tested one after the other as in the source.\<close>

definition excluded_word :: "js_string \<Rightarrow> bool" where
  "excluded_word lower =
     (includes_str lower (str ''ground'') \<or>
      includes_str lower (str ''floor'') \<or>
      includes_str lower (str ''plane'') \<or>
      includes_str lower (str ''shadow'') \<or>
      includes_str lower (str ''reflector''))"

definition shouldIncludeMesh :: "Mesh \<Rightarrow> js_string option \<Rightarrow> bool" where
  "shouldIncludeMesh mesh slotName =
     (case geometry mesh of
        None \<Rightarrow> False
      | Some g \<Rightarrow>
          if \<not> visible mesh then False
          else if (case slotName of Some sl \<Rightarrow> startsWith sl (str ''_'') | None \<Rightarrow> False) then False
          else if name mesh = Some (str ''facePads'') \<or> name mesh = Some (str ''_debugPass'')
            then False
          else (case position g of
                  None \<Rightarrow> False
                | Some posAttr \<Rightarrow>
                    if count posAttr < 3 then False
                    else if geometry_type g = str ''PlaneBufferGeometry'' \<or>
                            geometry_type g = str ''PlaneGeometry'' then False
                    else if excluded_word (toLowerCase (or_empty (name mesh))) then False
                    else if excluded_word (toLowerCase (or_empty slotName)) then False
                    else True))"

record CollectedMeshes =
  characterMeshes :: "Mesh list"
  baseMeshes :: "Mesh list"

text \<open>
  \<open>collectRecursive(object, slotName)\<close>: the two arrays it pushes to are the state.
  \<open>collect_children\<close> is its loop over \<open>object.children\<close>.
\<close>

fun collectRecursive :: "Mesh \<Rightarrow> js_string option \<Rightarrow> CollectedMeshes \<Rightarrow> CollectedMeshes"
  and collect_children :: "Mesh list \<Rightarrow> js_string option \<Rightarrow> CollectedMeshes \<Rightarrow> CollectedMeshes"
where
  "collectRecursive (Mesh im ism vis nm g sk mw bm bmi mti ch) slotName acc =
     (let object = Mesh im ism vis nm g sk mw bm bmi mti ch;
          acc1 =
            (if (im \<or> ism) \<and> shouldIncludeMesh object slotName then
               (if isBaseMesh slotName nm
                then acc\<lparr>baseMeshes := baseMeshes acc @ [object]\<rparr>
                else acc\<lparr>characterMeshes := characterMeshes acc @ [object]\<rparr>)
             else acc)
      in case ch of
           None \<Rightarrow> acc1
         | Some cs \<Rightarrow> collect_children cs slotName acc1)"
| "collect_children [] slotName acc = acc"
| "collect_children (child # rest) slotName acc =
     collect_children rest slotName
       (if name child \<noteq> Some (str ''facePads'') \<and> name child \<noteq> Some (str ''_debugPass'')
        then collectRecursive child slotName acc
        else acc)"

text \<open>
  The globals of the host page. \<open>meshes\<close> holds the entries of \<open>display.meshes\<close> in the
  order of \<open>Object.entries\<close>; a slot may hold no mesh. \<open>scene.updateMatrixWorld\<close> only
  refreshes matrices of the host scene, which the model reads as they are.
\<close>

record Display =
  meshes :: "(js_string \<times> Mesh option) list option"

record CK =
  activeDisplay :: "Display option"

definition collect_slot :: "js_string \<times> Mesh option \<Rightarrow> CollectedMeshes \<Rightarrow> CollectedMeshes" where
  "collect_slot entry acc =
     (case snd entry of
        None \<Rightarrow> acc
      | Some mesh \<Rightarrow>
          if startsWith (fst entry) (str ''_'') then acc
          else collectRecursive mesh (Some (fst entry)) acc)"

definition collectMeshes :: "CK \<Rightarrow> CollectedMeshes" where
  "collectMeshes ck =
     (let empty = \<lparr>characterMeshes = [], baseMeshes = []\<rparr>
      in case activeDisplay ck of
           None \<Rightarrow> empty
         | Some display \<Rightarrow>
             (case meshes display of
                None \<Rightarrow> empty
              | Some entries \<Rightarrow> fold collect_slot entries empty))"

subsection \<open>Pose resolver\<close>

text \<open>
  \<open>positions\<close> is an array of numbers. The pose resolver of this model computes in
  exact arithmetic and stores finite numbers; the triangle assembler is modelled for
  every array of numbers.
\<close>

record ExtractedGeometry =
  positions :: "number list"
  indices :: "int list option"

text \<open>\<open>morphInfluences[m] || 0\<close>\<close>

definition influence_at :: "real list \<Rightarrow> nat \<Rightarrow> real" where
  "influence_at infl m = (if m < length infl then infl ! m else 0)"

text \<open>The loop over the morph targets, from target \<open>m\<close> on; the state is the base position.\<close>

fun morph_loop ::
  "BufferAttribute list \<Rightarrow> real list \<Rightarrow> nat \<Rightarrow> nat \<Rightarrow> real \<times> real \<times> real \<Rightarrow> real \<times> real \<times> real" where
  "morph_loop [] infl m i b = b"
| "morph_loop (morphAttr # rest) infl m i (baseX, baseY, baseZ) =
     (let influence = influence_at infl m
      in morph_loop rest infl (m + 1) i
           (if influence > 0.0001
            then (baseX + getX morphAttr i * influence,
                  baseY + getY morphAttr i * influence,
                  baseZ + getZ morphAttr i * influence)
            else (baseX, baseY, baseZ)))"

text \<open>The body of the loop over the vertices, for vertex \<open>i\<close>.\<close>

definition extract_vertex :: "RK \<Rightarrow> Mesh \<Rightarrow> BufferGeometry \<Rightarrow> BufferAttribute \<Rightarrow> nat \<Rightarrow> Vec3 option" where
  "extract_vertex rk mesh g positionAttr i =
     (let morphInfluences = (case morphTargetInfluences mesh of Some infl \<Rightarrow> infl | None \<Rightarrow> []);
          base0 = (getX positionAttr i, getY positionAttr i, getZ positionAttr i);
          base =
            (case morphPosition g of
               Some morphPositions \<Rightarrow>
                 if length morphPositions > 0
                 then morph_loop morphPositions morphInfluences 0 i base0
                 else base0
             | None \<Rightarrow> base0);
          skinned = (isSkinnedMesh mesh \<and> skeleton mesh \<noteq> None \<and> skin0 g \<noteq> None)
      in case base of
           (baseX, baseY, baseZ) \<Rightarrow>
             if skinned then skinVertexWithPosition rk mesh i baseX baseY baseZ
             else Some (applyMatrix4 rk (Vec3 baseX baseY baseZ) (matrixWorld mesh)))"

fun extract_loop :: "(nat \<Rightarrow> Vec3 option) \<Rightarrow> nat list \<Rightarrow> number list \<Rightarrow> number list option" where
  "extract_loop f [] ps = Some ps"
| "extract_loop f (i # rest) ps =
     (case f i of
        None \<Rightarrow> None
      | Some vertex \<Rightarrow>
          extract_loop f rest (ps @ [Num (vec_x vertex), Num (vec_y vertex), Num (vec_z vertex)]))"

text \<open>
  \<open>extractMeshGeometry(mesh)\<close>. Reading \<open>attributes\<close> of a missing geometry or \<open>count\<close> of
  a missing position attribute throws. The calls of \<open>updateMatrixWorld\<close> and
  \<open>skeleton.update\<close> refresh the host's matrices and return nothing.
\<close>

definition extractMeshGeometry :: "RK \<Rightarrow> Mesh \<Rightarrow> ExtractedGeometry option" where
  "extractMeshGeometry rk mesh =
     (case geometry mesh of
        None \<Rightarrow> None
      | Some g \<Rightarrow>
          (case position g of
             None \<Rightarrow> None
           | Some positionAttr \<Rightarrow>
               (case extract_loop (extract_vertex rk mesh g positionAttr) [0..<count positionAttr] [] of
                  None \<Rightarrow> None
                | Some ps \<Rightarrow> Some \<lparr>positions = ps, indices = index g\<rparr>)))"

subsection \<open>Triangle assembler\<close>

text \<open>
  A vertex whose coordinates are finite numbers, and a vertex as \<open>getVertex\<close> reads it,
  where a coordinate is any number, or \<open>undefined\<close> when it is read outside \<open>positions\<close>.
\<close>

datatype Vertex = Vertex (v_x: real) (v_y: real) (v_z: real)

datatype Triangle = Triangle (v1: Vertex) (v2: Vertex) (v3: Vertex)

type_synonym jsnum = "number option"

type_synonym RawVertex = "jsnum \<times> jsnum \<times> jsnum"

text \<open>The conversion of an argument to a number: \<open>undefined\<close> becomes NaN.\<close>

definition to_number :: "jsnum \<Rightarrow> number" where
  "to_number c = (case c of Some n \<Rightarrow> n | None \<Rightarrow> NaN)"

text \<open>\<open>Math.abs(c) < MAX_COORD\<close>\<close>

definition abs_below :: "jsnum \<Rightarrow> real \<Rightarrow> bool" where
  "abs_below c m = less64 (abs64 (to_number c)) (Num m)"

definition isValidVertex :: "RawVertex \<Rightarrow> bool" where
  "isValidVertex v =
     (let MAX_COORD = 100
      in case v of (x, y, z) \<Rightarrow> abs_below x MAX_COORD \<and> abs_below y MAX_COORD \<and> abs_below z MAX_COORD)"

text \<open>\<open>positions[k]\<close> for a number \<open>k\<close> that may itself be \<open>undefined\<close> (then the key is NaN).\<close>

definition positions_at :: "number list \<Rightarrow> int option \<Rightarrow> jsnum" where
  "positions_at ps k =
     (case k of
        None \<Rightarrow> None
      | Some j \<Rightarrow> if 0 \<le> j \<and> j < int (length ps) then Some (ps ! nat j) else None)"

definition getVertex :: "number list \<Rightarrow> int option \<Rightarrow> RawVertex" where
  "getVertex ps idx =
     (positions_at ps (map_option (\<lambda>j. j * 3) idx),
      positions_at ps (map_option (\<lambda>j. j * 3 + 1) idx),
      positions_at ps (map_option (\<lambda>j. j * 3 + 2) idx))"

text \<open>
  The coordinates of a vertex that passed \<open>isValidVertex\<close>, which are finite numbers.
\<close>

definition num :: "jsnum \<Rightarrow> real" where
  "num c = (case c of Some (Num v) \<Rightarrow> v | _ \<Rightarrow> 0)"

definition checked :: "RawVertex \<Rightarrow> Vertex" where
  "checked v = (case v of (x, y, z) \<Rightarrow> Vertex (num x) (num y) (num z))"

text \<open>\<open>addTriangle(i0, i1, i2)\<close>: the state is \<open>(allTriangles, skippedTriangles)\<close>.\<close>

definition addTriangle ::
  "number list \<Rightarrow> int option \<times> int option \<times> int option \<Rightarrow> Triangle list \<times> nat \<Rightarrow> Triangle list \<times> nat" where
  "addTriangle ps is st =
     (case is of
        (i0, i1, i2) \<Rightarrow>
          let a = getVertex ps i0; b = getVertex ps i1; c = getVertex ps i2
          in if \<not> isValidVertex a \<or> \<not> isValidVertex b \<or> \<not> isValidVertex c
             then (fst st, snd st + 1)
             else (fst st @ [Triangle (checked a) (checked b) (checked c)], snd st))"

text \<open>\<open>indices[i]\<close> on the index array.\<close>

definition indices_at :: "int list \<Rightarrow> nat \<Rightarrow> int option" where
  "indices_at ixs i = (if i < length ixs then Some (ixs ! i) else None)"

text \<open>\<open>for (let i = 0; i < indices.length; i += 3)\<close>, from \<open>i\<close> on.\<close>

function indexed_loop :: "number list \<Rightarrow> int list \<Rightarrow> nat \<Rightarrow> Triangle list \<times> nat \<Rightarrow> Triangle list \<times> nat" where
  "indexed_loop ps ixs i st =
     (if i < length ixs
      then indexed_loop ps ixs (i + 3)
             (addTriangle ps (indices_at ixs i, indices_at ixs (i + 1), indices_at ixs (i + 2)) st)
      else st)"
  by pat_completeness auto
termination
  by (relation "measure (\<lambda>(ps, ixs, i, st). length ixs - i)") auto

declare indexed_loop.simps [simp del]

text \<open>
  \<open>for (let i = 0; i < vertCount; i += 3)\<close> with \<open>vertCount = positions.length / 3\<close>, from
  \<open>i\<close> on: \<open>i < vertCount\<close> is \<open>3 * i < positions.length\<close>.
\<close>

function unindexed_loop :: "number list \<Rightarrow> nat \<Rightarrow> Triangle list \<times> nat \<Rightarrow> Triangle list \<times> nat" where
  "unindexed_loop ps i st =
     (if 3 * i < length ps
      then unindexed_loop ps (i + 3)
             (addTriangle ps (Some (int i), Some (int i + 1), Some (int i + 2)) st)
      else st)"
  by pat_completeness auto
termination
  by (relation "measure (\<lambda>(ps, i, st). length ps - 3 * i)") auto

declare unindexed_loop.simps [simp del]

definition add_mesh_triangles :: "ExtractedGeometry \<Rightarrow> Triangle list \<times> nat \<Rightarrow> Triangle list \<times> nat" where
  "add_mesh_triangles e st =
     (case indices e of
        Some ixs \<Rightarrow> indexed_loop (positions e) ixs 0 st
      | None \<Rightarrow> unindexed_loop (positions e) 0 st)"

text \<open>
  \<open>collectTriangles(meshes)\<close> returns \<open>allTriangles\<close>; the model returns the count of
  skipped triangles with it, which the source reports on the console.
\<close>

fun collect_loop :: "RK \<Rightarrow> Mesh list \<Rightarrow> Triangle list \<times> nat \<Rightarrow> (Triangle list \<times> nat) option" where
  "collect_loop rk [] st = Some st"
| "collect_loop rk (mesh # rest) st =
     (case extractMeshGeometry rk mesh of
        None \<Rightarrow> None
      | Some e \<Rightarrow> collect_loop rk rest (add_mesh_triangles e st))"

definition collectTriangles :: "RK \<Rightarrow> Mesh list \<Rightarrow> (Triangle list \<times> nat) option" where
  "collectTriangles rk ms = collect_loop rk ms ([], 0)"

text \<open>
  \<open>transformTriangles(triangles, scale)\<close>. The vertices of the list are distinct
  objects (\<open>getVertex\<close> makes a new one at every call, and the function is only called
  on lists that \<open>collectTriangles\<close> built), so the updates in place are a map over the
  list. \<open>minZ\<close> starts at \<open>+Infinity\<close>, which is \<open>None\<close>; it stays so only for the empty
  list, on which the last loop does nothing.
\<close>

definition remap_vertex :: "real \<Rightarrow> Vertex \<Rightarrow> Vertex" where
  "remap_vertex scale v =
     (let oldY = v_y v; oldZ = v_z v
      in Vertex (v_x v * scale) (- oldZ * scale) (oldY * scale))"

definition map_triangle :: "(Vertex \<Rightarrow> Vertex) \<Rightarrow> Triangle \<Rightarrow> Triangle" where
  "map_triangle f tri = Triangle (f (v1 tri)) (f (v2 tri)) (f (v3 tri))"

definition min_step :: "Vertex \<Rightarrow> real option \<Rightarrow> real option" where
  "min_step v minZ = (case minZ of None \<Rightarrow> Some (v_z v) | Some m \<Rightarrow> Some (min m (v_z v)))"

definition min_triangle :: "Triangle \<Rightarrow> real option \<Rightarrow> real option" where
  "min_triangle tri minZ = fold min_step [v1 tri, v2 tri, v3 tri] minZ"

definition lift_vertex :: "real \<Rightarrow> Vertex \<Rightarrow> Vertex" where
  "lift_vertex zOffset v = Vertex (v_x v) (v_y v) (v_z v + zOffset)"

definition transformTriangles :: "Triangle list \<Rightarrow> real \<Rightarrow> Triangle list" where
  "transformTriangles triangles scale =
     (let remapped = map (map_triangle (remap_vertex scale)) triangles;
          minZ = fold min_triangle remapped None
      in case minZ of
           None \<Rightarrow> remapped
         | Some m \<Rightarrow>
             let zOffset = - m + 2.5
             in map (map_triangle (lift_vertex zOffset)) remapped)"

text \<open>
  The same function on binary64 numbers, as the engine evaluates it: a vertex and a
  triangle whose coordinates are numbers, the three loops with every product and sum
  rounded, and \<open>minZ\<close> starting at \<open>+Infinity\<close>. \<open>- oldZ * scale\<close> negates first.
\<close>

datatype Vertex64 = Vertex64 (x64: number) (y64: number) (z64: number)

datatype Triangle64 = Triangle64 (v1_64: Vertex64) (v2_64: Vertex64) (v3_64: Vertex64)

definition remap_vertex64 :: "number \<Rightarrow> Vertex64 \<Rightarrow> Vertex64" where
  "remap_vertex64 scale v =
     (let oldY = y64 v; oldZ = z64 v
      in Vertex64 (mul64 (x64 v) scale) (mul64 (neg64 oldZ) scale) (mul64 oldY scale))"

definition map_triangle64 :: "(Vertex64 \<Rightarrow> Vertex64) \<Rightarrow> Triangle64 \<Rightarrow> Triangle64" where
  "map_triangle64 f tri = Triangle64 (f (v1_64 tri)) (f (v2_64 tri)) (f (v3_64 tri))"

definition min_triangle64 :: "Triangle64 \<Rightarrow> number \<Rightarrow> number" where
  "min_triangle64 tri minZ =
     fold (\<lambda>v m. min64 m (z64 v)) [v1_64 tri, v2_64 tri, v3_64 tri] minZ"

definition lift_vertex64 :: "number \<Rightarrow> Vertex64 \<Rightarrow> Vertex64" where
  "lift_vertex64 zOffset v = Vertex64 (x64 v) (y64 v) (add64 (z64 v) zOffset)"

definition transformTriangles64 :: "Triangle64 list \<Rightarrow> number \<Rightarrow> Triangle64 list" where
  "transformTriangles64 triangles scale =
     (let remapped = map (map_triangle64 (remap_vertex64 scale)) triangles;
          minZ = fold min_triangle64 remapped PInf;
          zOffset = add64 (neg64 minZ) (Num 2.5)
      in map (map_triangle64 (lift_vertex64 zOffset)) remapped)"

subsection \<open>Byte buffers\<close>

text \<open>
  An \<open>ArrayBuffer\<close> is a list of bytes, zero when created. The setters of \<open>DataView\<close> and
  \<open>TypedArray.prototype.set\<close> throw a \<open>RangeError\<close> when the bytes do not fit into the
  buffer. Integers are converted to the width of the field (modulo a power of two);
  multi-byte values are little-endian, as every call of the source asks.
\<close>

type_synonym byte = "8 word"

type_synonym buffer = "byte list"

definition ArrayBuffer :: "nat \<Rightarrow> buffer" where
  "ArrayBuffer n = replicate n 0"

definition write_bytes :: "nat \<Rightarrow> byte list \<Rightarrow> buffer \<Rightarrow> buffer option" where
  "write_bytes off bs buf =
     (if off + length bs \<le> length buf
      then Some (take off buf @ bs @ drop (off + length bs) buf)
      else None)"

definition le16 :: "16 word \<Rightarrow> byte list" where
  "le16 w = [ucast w, ucast (drop_bit 8 w)]"

definition le32 :: "32 word \<Rightarrow> byte list" where
  "le32 w = [ucast w, ucast (drop_bit 8 w), ucast (drop_bit 16 w), ucast (drop_bit 24 w)]"

definition setUint8 :: "nat \<Rightarrow> byte \<Rightarrow> buffer \<Rightarrow> buffer option" where
  "setUint8 off v buf = write_bytes off [v] buf"

definition setUint16 :: "nat \<Rightarrow> 16 word \<Rightarrow> buffer \<Rightarrow> buffer option" where
  "setUint16 off v buf = write_bytes off (le16 v) buf"

definition setUint32 :: "nat \<Rightarrow> 32 word \<Rightarrow> buffer \<Rightarrow> buffer option" where
  "setUint32 off v buf = write_bytes off (le32 v) buf"

text \<open>
  Two functions of the platform are parameters of the model: the bits of the IEEE
  binary32 number nearest to a number, which \<open>setFloat32\<close> stores, and the UTF-8
  encoding of a string by \<open>TextEncoder\<close>.
\<close>

record Platform =
  float32_bits :: "real \<Rightarrow> 32 word"
  utf8_encode :: "js_string \<Rightarrow> byte list"

definition setFloat32 :: "Platform \<Rightarrow> nat \<Rightarrow> real \<Rightarrow> buffer \<Rightarrow> buffer option" where
  "setFloat32 pf off v buf = write_bytes off (le32 (float32_bits pf v)) buf"

subsection \<open>Binary mesh encoder\<close>

definition calculateNormal :: "Vertex \<Rightarrow> Vertex \<Rightarrow> Vertex \<Rightarrow> Vertex" where
  "calculateNormal p1 p2 p3 =
     (let ax = v_x p2 - v_x p1; ay = v_y p2 - v_y p1; az = v_z p2 - v_z p1;
          bx = v_x p3 - v_x p1; by = v_y p3 - v_y p1; bz = v_z p3 - v_z p1;
          nx = ay * bz - az * by;
          ny = az * bx - ax * bz;
          nz = ax * by - ay * bx;
          len = sqrt (nx * nx + ny * ny + nz * nz)
      in if len > 0 then Vertex (nx / len) (ny / len) (nz / len) else Vertex nx ny nz)"

text \<open>\<open>for (let i = 0; i < 80; i++) dataView.setUint8(i, ...)\<close>, from \<open>i\<close> on.\<close>

function header_loop :: "js_string \<Rightarrow> nat \<Rightarrow> buffer \<Rightarrow> buffer option" where
  "header_loop headerText i buf =
     (if i < 80
      then (case setUint8 i (if i < length headerText then ucast (headerText ! i) else 0) buf of
              None \<Rightarrow> None
            | Some b \<Rightarrow> header_loop headerText (i + 1) b)
      else Some buf)"
  by pat_completeness auto
termination
  by (relation "measure (\<lambda>(headerText, i, buf). 80 - i)") auto

declare header_loop.simps [simp del]

text \<open>The body of the loop over the triangles: thirteen writes from \<open>offset\<close> on.\<close>

definition write_triangle :: "Platform \<Rightarrow> Triangle \<Rightarrow> nat \<Rightarrow> buffer \<Rightarrow> buffer option" where
  "write_triangle pf tri offset buf =
     (let normal = calculateNormal (v1 tri) (v2 tri) (v3 tri)
      in do {
        b \<leftarrow> setFloat32 pf offset (v_x normal) buf;
        b \<leftarrow> setFloat32 pf (offset + 4) (v_y normal) b;
        b \<leftarrow> setFloat32 pf (offset + 8) (v_z normal) b;
        b \<leftarrow> setFloat32 pf (offset + 12) (v_x (v1 tri)) b;
        b \<leftarrow> setFloat32 pf (offset + 16) (v_y (v1 tri)) b;
        b \<leftarrow> setFloat32 pf (offset + 20) (v_z (v1 tri)) b;
        b \<leftarrow> setFloat32 pf (offset + 24) (v_x (v2 tri)) b;
        b \<leftarrow> setFloat32 pf (offset + 28) (v_y (v2 tri)) b;
        b \<leftarrow> setFloat32 pf (offset + 32) (v_z (v2 tri)) b;
        b \<leftarrow> setFloat32 pf (offset + 36) (v_x (v3 tri)) b;
        b \<leftarrow> setFloat32 pf (offset + 40) (v_y (v3 tri)) b;
        b \<leftarrow> setFloat32 pf (offset + 44) (v_z (v3 tri)) b;
        setUint16 (offset + 48) 0 b
      })"

fun triangle_loop :: "Platform \<Rightarrow> Triangle list \<Rightarrow> nat \<Rightarrow> buffer \<Rightarrow> buffer option" where
  "triangle_loop pf [] offset buf = Some buf"
| "triangle_loop pf (tri # rest) offset buf =
     (case write_triangle pf tri offset buf of
        None \<Rightarrow> None
      | Some b \<Rightarrow> triangle_loop pf rest (offset + 50) b)"

text \<open>
  \<open>trianglesToSTL(triangles, headerText)\<close>; the default of \<open>headerText\<close> is supplied
  by the caller in the model.
\<close>

definition trianglesToSTL :: "Platform \<Rightarrow> Triangle list \<Rightarrow> js_string \<Rightarrow> buffer option" where
  "trianglesToSTL pf triangles headerText =
     (let triangleCount = length triangles;
          bufferLength = 80 + 4 + triangleCount * 50;
          buf = ArrayBuffer bufferLength
      in do {
        b \<leftarrow> header_loop headerText 0 buf;
        b \<leftarrow> setUint32 80 (of_nat triangleCount) b;
        triangle_loop pf triangles 84 b
      })"

subsection \<open>Archive encoder\<close>

text \<open>
  \<open>_makeCRCTable()\<close>: entry \<open>i\<close> is \<open>i\<close> after eight rounds of the inner loop, whose body is
  \<open>crc_round\<close>. The table is a \<open>Uint32Array\<close>, so its entries are 32-bit words.
\<close>

definition crc_round :: "32 word \<Rightarrow> 32 word" where
  "crc_round c = (if c AND 1 \<noteq> 0 then 0xEDB88320 XOR drop_bit 1 c else drop_bit 1 c)"

definition makeCRCTable :: "32 word list" where
  "makeCRCTable = map (\<lambda>i. (crc_round ^^ 8) (of_nat i)) [0..<256]"

text \<open>
  \<open>_crc32(data)\<close>. The cached table is always the value of \<open>_makeCRCTable()\<close>. The body
  of the loop is \<open>crc = (crc >>> 8) ^ table[(crc ^ data[i]) & 0xff]\<close>.
\<close>

definition crc_update :: "32 word list \<Rightarrow> byte \<Rightarrow> 32 word \<Rightarrow> 32 word" where
  "crc_update table b crc = drop_bit 8 crc XOR table ! unat ((crc XOR ucast b) AND 0xff)"

definition crc32 :: "buffer \<Rightarrow> 32 word" where
  "crc32 data =
     (let table = makeCRCTable;
          crc = fold (crc_update table) data 0xffffffff
      in crc XOR 0xffffffff)"

text \<open>
  \<open>_createLocalHeader(nameBytes, data)\<close>, \<open>_createCentralHeader(nameBytes, data,
  localOffset)\<close> and \<open>_createEOCD(numFiles, centralSize, centralOffset)\<close>: the writes in
  the order of the source. Lengths and offsets are converted to the width of their
  field.
\<close>

definition createLocalHeader :: "byte list \<Rightarrow> buffer \<Rightarrow> buffer option" where
  "createLocalHeader nameBytes data =
     do {
       b \<leftarrow> setUint32 0 0x04034b50 (ArrayBuffer (30 + length nameBytes));
       b \<leftarrow> setUint16 4 20 b;
       b \<leftarrow> setUint16 6 0 b;
       b \<leftarrow> setUint16 8 0 b;
       b \<leftarrow> setUint16 10 0 b;
       b \<leftarrow> setUint16 12 0 b;
       b \<leftarrow> setUint32 14 (crc32 data) b;
       b \<leftarrow> setUint32 18 (of_nat (length data)) b;
       b \<leftarrow> setUint32 22 (of_nat (length data)) b;
       b \<leftarrow> setUint16 26 (of_nat (length nameBytes)) b;
       b \<leftarrow> setUint16 28 0 b;
       write_bytes 30 nameBytes b
     }"

definition createCentralHeader :: "byte list \<Rightarrow> buffer \<Rightarrow> nat \<Rightarrow> buffer option" where
  "createCentralHeader nameBytes data localOffset =
     do {
       b \<leftarrow> setUint32 0 0x02014b50 (ArrayBuffer (46 + length nameBytes));
       b \<leftarrow> setUint16 4 20 b;
       b \<leftarrow> setUint16 6 20 b;
       b \<leftarrow> setUint16 8 0 b;
       b \<leftarrow> setUint16 10 0 b;
       b \<leftarrow> setUint16 12 0 b;
       b \<leftarrow> setUint16 14 0 b;
       b \<leftarrow> setUint32 16 (crc32 data) b;
       b \<leftarrow> setUint32 20 (of_nat (length data)) b;
       b \<leftarrow> setUint32 24 (of_nat (length data)) b;
       b \<leftarrow> setUint16 28 (of_nat (length nameBytes)) b;
       b \<leftarrow> setUint16 30 0 b;
       b \<leftarrow> setUint16 32 0 b;
       b \<leftarrow> setUint16 34 0 b;
       b \<leftarrow> setUint16 36 0 b;
       b \<leftarrow> setUint32 38 0 b;
       b \<leftarrow> setUint32 42 (of_nat localOffset) b;
       write_bytes 46 nameBytes b
     }"

definition createEOCD :: "nat \<Rightarrow> nat \<Rightarrow> nat \<Rightarrow> buffer option" where
  "createEOCD numFiles centralSize centralOffset =
     do {
       b \<leftarrow> setUint32 0 0x06054b50 (ArrayBuffer 22);
       b \<leftarrow> setUint16 4 0 b;
       b \<leftarrow> setUint16 6 0 b;
       b \<leftarrow> setUint16 8 (of_nat numFiles) b;
       b \<leftarrow> setUint16 10 (of_nat numFiles) b;
       b \<leftarrow> setUint32 12 (of_nat centralSize) b;
       b \<leftarrow> setUint32 16 (of_nat centralOffset) b;
       setUint16 20 0 b
     }"

text \<open>
  A \<open>SimpleZip\<close> is the list of its files, \<open>addFile\<close> appends to it. The first two loops
  of \<open>generate\<close> carry the list built so far and \<open>offset\<close>; the two copying loops carry
  \<open>pos\<close> and \<open>result\<close>. Reading \<open>localHeaders[i].offset\<close> past the end of \<open>localHeaders\<close>
  throws.
\<close>

type_synonym ZipFile = "js_string \<times> buffer"

record LocalHeader =
  lh_header :: buffer
  lh_data :: buffer
  lh_offset :: nat

definition addFile :: "ZipFile list \<Rightarrow> js_string \<Rightarrow> buffer \<Rightarrow> ZipFile list" where
  "addFile files nm dat = files @ [(nm, dat)]"

fun local_loop ::
  "Platform \<Rightarrow> ZipFile list \<Rightarrow> LocalHeader list \<Rightarrow> nat \<Rightarrow> (LocalHeader list \<times> nat) option" where
  "local_loop pf [] localHeaders offset = Some (localHeaders, offset)"
| "local_loop pf (file # rest) localHeaders offset =
     (let nameBytes = utf8_encode pf (fst file)
      in case createLocalHeader nameBytes (snd file) of
           None \<Rightarrow> None
         | Some localHeader \<Rightarrow>
             local_loop pf rest
               (localHeaders @ [\<lparr>lh_header = localHeader, lh_data = snd file, lh_offset = offset\<rparr>])
               (offset + length localHeader + length (snd file)))"

fun central_loop ::
  "Platform \<Rightarrow> ZipFile list \<Rightarrow> LocalHeader list \<Rightarrow> buffer list \<Rightarrow> nat \<Rightarrow> (buffer list \<times> nat) option" where
  "central_loop pf [] lhs centralHeaders offset = Some (centralHeaders, offset)"
| "central_loop pf (file # rest) [] centralHeaders offset = None"
| "central_loop pf (file # rest) (lh # lhs) centralHeaders offset =
     (let nameBytes = utf8_encode pf (fst file)
      in case createCentralHeader nameBytes (snd file) (lh_offset lh) of
           None \<Rightarrow> None
         | Some centralHeader \<Rightarrow>
             central_loop pf rest lhs (centralHeaders @ [centralHeader])
               (offset + length centralHeader))"

fun copy_locals :: "LocalHeader list \<Rightarrow> nat \<Rightarrow> buffer \<Rightarrow> (nat \<times> buffer) option" where
  "copy_locals [] pos result = Some (pos, result)"
| "copy_locals (lh # rest) pos result =
     do {
       r \<leftarrow> write_bytes pos (lh_header lh) result;
       r \<leftarrow> write_bytes (pos + length (lh_header lh)) (lh_data lh) r;
       copy_locals rest (pos + length (lh_header lh) + length (lh_data lh)) r
     }"

fun copy_centrals :: "buffer list \<Rightarrow> nat \<Rightarrow> buffer \<Rightarrow> (nat \<times> buffer) option" where
  "copy_centrals [] pos result = Some (pos, result)"
| "copy_centrals (central # rest) pos result =
     do {
       r \<leftarrow> write_bytes pos central result;
       copy_centrals rest (pos + length central) r
     }"

definition generate :: "Platform \<Rightarrow> ZipFile list \<Rightarrow> buffer option" where
  "generate pf files =
     do {
       (localHeaders, offset1) \<leftarrow> local_loop pf files [] 0;
       let centralStart = offset1;
       (centralHeaders, offset2) \<leftarrow> central_loop pf files localHeaders [] offset1;
       let centralEnd = offset2;
       eocd \<leftarrow> createEOCD (length files) (centralEnd - centralStart) centralStart;
       let offset3 = offset2 + length eocd;
       let result = ArrayBuffer offset3;
       (pos1, r1) \<leftarrow> copy_locals localHeaders 0 result;
       (pos2, r2) \<leftarrow> copy_centrals centralHeaders pos1 r1;
       write_bytes pos2 eocd r2
     }"

subsection \<open>Export\<close>

text \<open>
  \<open>exportCharacter(options)\<close>. The environment holds the two globals of the host page,
  either of which may be undefined, and the platform. The result is \<open>None\<close> when the
  call throws, \<open>Some None\<close> when it returns without a download (after
  \<open>console.error\<close>), and \<open>Some (Some (buffer, name))\<close> for the call
  \<open>downloadFile(buffer, name)\<close>. An option that is \<open>undefined\<close> takes its default.
\<close>

record ExportOptions =
  filename :: "js_string option"
  scale :: "real option"
  separateBase :: "bool option"

record Env =
  env_CK :: "CK option"
  env_RK :: "RK option"
  env_platform :: Platform

definition exportCharacter :: "Env \<Rightarrow> ExportOptions \<Rightarrow> (buffer \<times> js_string) option option" where
  "exportCharacter env options =
     (let fname = (case filename options of Some f \<Rightarrow> f | None \<Rightarrow> str ''heroforge-character'');
          sc = (case scale options of Some x \<Rightarrow> x | None \<Rightarrow> 10);
          separate = (case separateBase options of Some b \<Rightarrow> b | None \<Rightarrow> True);
          pf = env_platform env
      in case (env_CK env, env_RK env) of
           (Some ck, Some rk) \<Rightarrow>
             let collected = collectMeshes ck;
                 cms = characterMeshes collected;
                 bms = baseMeshes collected
             in if length cms = 0 \<and> length bms = 0 then Some None
                else if separate \<and> length bms > 0 then
                  do {
                    zip1 \<leftarrow>
                      (if length cms > 0 then
                         do {
                           (charTriangles, skipped) \<leftarrow> collectTriangles rk cms;
                           charSTL \<leftarrow>
                             trianglesToSTL pf (transformTriangles charTriangles sc)
                               (str ''HeroForge Character'');
                           Some (addFile [] (fname @ str ''-character.stl'') charSTL)
                         }
                       else Some []);
                    zip2 \<leftarrow>
                      (if length bms > 0 then
                         do {
                           (baseTriangles, skipped) \<leftarrow> collectTriangles rk bms;
                           baseSTL \<leftarrow>
                             trianglesToSTL pf (transformTriangles baseTriangles sc)
                               (str ''HeroForge Base'');
                           Some (addFile zip1 (fname @ str ''-base.stl'') baseSTL)
                         }
                       else Some zip1);
                    zipBuffer \<leftarrow> generate pf zip2;
                    Some (Some (zipBuffer, fname @ str ''.zip''))
                  }
                else
                  do {
                    (triangles, skipped) \<leftarrow> collectTriangles rk (cms @ bms);
                    stlBuffer \<leftarrow>
                      trianglesToSTL pf (transformTriangles triangles sc) (str ''HeroForge Export'');
                    Some (Some (stlBuffer, fname @ str ''.stl''))
                  }
         | _ \<Rightarrow> Some None)"

subsection \<open>An instance of the renderer's operations\<close>

text \<open>
  The matrix operations of three.js, whose interface \<open>RK\<close> has: \<open>elements\<close> in column-major
  order, the product of two matrices, and a point transformed with the perspective
  divide. An instance of the parameters, used to run the model on concrete matrices.
\<close>

definition identity4 :: Matrix4 where
  "identity4 = [1, 0, 0, 0,  0, 1, 0, 0,  0, 0, 1, 0,  0, 0, 0, 1]"

definition multiply4 :: "Matrix4 \<Rightarrow> Matrix4 \<Rightarrow> Matrix4" where
  "multiply4 a b =
     map (\<lambda>n. a ! (n mod 4) * b ! (4 * (n div 4))
            + a ! (n mod 4 + 4) * b ! (4 * (n div 4) + 1)
            + a ! (n mod 4 + 8) * b ! (4 * (n div 4) + 2)
            + a ! (n mod 4 + 12) * b ! (4 * (n div 4) + 3)) [0..<16]"

definition applyMatrix4_three :: "Vec3 \<Rightarrow> Matrix4 \<Rightarrow> Vec3" where
  "applyMatrix4_three v e =
     (let x = vec_x v; y = vec_y v; z = vec_z v;
          w = 1 / (e ! 3 * x + e ! 7 * y + e ! 11 * z + e ! 15)
      in Vec3 ((e ! 0 * x + e ! 4 * y + e ! 8 * z + e ! 12) * w)
              ((e ! 1 * x + e ! 5 * y + e ! 9 * z + e ! 13) * w)
              ((e ! 2 * x + e ! 6 * y + e ! 10 * z + e ! 14) * w))"

definition threeRK :: RK where
  "threeRK = \<lparr>Matrix4_new = identity4, multiply = multiply4, applyMatrix4 = applyMatrix4_three\<rparr>"

subsection \<open>The traversal as a list\<close>

text \<open>
  The nodes on which \<open>collectRecursive\<close> is called for a slot, in the order of the
  calls; the test that sends a node to one of the two arrays; and the two arrays after
  a list of calls. Used to state properties of the traversal.
\<close>

fun visited :: "Mesh \<Rightarrow> Mesh list"
  and visited_children :: "Mesh list \<Rightarrow> Mesh list"
where
  "visited (Mesh im ism vis nm g sk mw bm bmi mti ch) =
     Mesh im ism vis nm g sk mw bm bmi mti ch #
       (case ch of None \<Rightarrow> [] | Some cs \<Rightarrow> visited_children cs)"
| "visited_children [] = []"
| "visited_children (child # rest) =
     (if name child \<noteq> Some (str ''facePads'') \<and> name child \<noteq> Some (str ''_debugPass'')
      then visited child else []) @ visited_children rest"

definition slot_visited :: "js_string \<times> Mesh option \<Rightarrow> (js_string \<times> Mesh) list" where
  "slot_visited entry =
     (case snd entry of
        None \<Rightarrow> []
      | Some mesh \<Rightarrow>
          if startsWith (fst entry) (str ''_'') then []
          else map (Pair (fst entry)) (visited mesh))"

definition scene_visited :: "CK \<Rightarrow> (js_string \<times> Mesh) list" where
  "scene_visited ck =
     (case activeDisplay ck of
        None \<Rightarrow> []
      | Some display \<Rightarrow>
          (case meshes display of
             None \<Rightarrow> []
           | Some entries \<Rightarrow> concat (map slot_visited entries)))"

definition accepted :: "js_string \<times> Mesh \<Rightarrow> bool" where
  "accepted sm =
     ((isMesh (snd sm) \<or> isSkinnedMesh (snd sm)) \<and> shouldIncludeMesh (snd sm) (Some (fst sm)))"

definition to_base :: "js_string \<times> Mesh \<Rightarrow> bool" where
  "to_base sm = isBaseMesh (Some (fst sm)) (name (snd sm))"

definition routed :: "(js_string \<times> Mesh) list \<Rightarrow> CollectedMeshes \<Rightarrow> CollectedMeshes" where
  "routed ns acc =
     \<lparr>characterMeshes =
        characterMeshes acc @ map snd (filter (\<lambda>sm. accepted sm \<and> \<not> to_base sm) ns),
      baseMeshes =
        baseMeshes acc @ map snd (filter (\<lambda>sm. accepted sm \<and> to_base sm) ns)\<rparr>"

subsection \<open>Reference definitions for the scene query\<close>

text \<open>
  Every node of a slot in depth-first order: a node, then every node under each of its
  children. Each node comes with a mark, which is set when the node is, or lies below,
  a child with one of the two sentinel names.
\<close>

definition sentinel :: "js_string option \<Rightarrow> bool" where
  "sentinel nm = (nm = Some (str ''facePads'') \<or> nm = Some (str ''_debugPass''))"

fun marked :: "bool \<Rightarrow> Mesh \<Rightarrow> (bool \<times> Mesh) list"
  and marked_children :: "bool \<Rightarrow> Mesh list \<Rightarrow> (bool \<times> Mesh) list"
where
  "marked h (Mesh im ism vis nm g sk mw bm bmi mti ch) =
     (h, Mesh im ism vis nm g sk mw bm bmi mti ch) #
       (case ch of None \<Rightarrow> [] | Some cs \<Rightarrow> marked_children h cs)"
| "marked_children h [] = []"
| "marked_children h (child # rest) =
     marked (h \<or> sentinel (name child)) child @ marked_children h rest"

text \<open>
  Every node of every slot of the scene, with the name of its slot and its mark, in the
  order of the slots.
\<close>

definition scene_descendants :: "CK \<Rightarrow> (js_string \<times> bool \<times> Mesh) list" where
  "scene_descendants ck =
     (case activeDisplay ck of
        None \<Rightarrow> []
      | Some display \<Rightarrow>
          (case meshes display of
             None \<Rightarrow> []
           | Some entries \<Rightarrow>
               concat (map (\<lambda>entry. case snd entry of
                                      None \<Rightarrow> []
                                    | Some mesh \<Rightarrow> map (Pair (fst entry)) (marked False mesh))
                         entries)))"

text \<open>
  Matching without regard to case, in the words of the specification: \<open>p\<close> spells the
  lower-case word \<open>w\<close> when it has the letters of \<open>w\<close> in order, each as it is or as its
  capital. A string starts with a word when a prefix of it spells the word, and
  contains it when a part of it does.
\<close>

definition spells :: "js_string \<Rightarrow> js_string \<Rightarrow> bool" where
  "spells p w = list_all2 (\<lambda>c l. c = l \<or> (97 \<le> l \<and> l \<le> 122 \<and> c = l - 32)) p w"

definition starts_with_ci :: "js_string \<Rightarrow> string \<Rightarrow> bool" where
  "starts_with_ci s w = (\<exists>p r. s = p @ r \<and> spells p (str w))"

definition contains_ci :: "js_string \<Rightarrow> string \<Rightarrow> bool" where
  "contains_ci s w = (\<exists>a p r. s = a @ p @ r \<and> spells p (str w))"

definition has_prefix :: "js_string \<Rightarrow> js_string \<Rightarrow> bool" where
  "has_prefix s p = (\<exists>r. s = p @ r)"

text \<open>The name of a node, empty when the node has none.\<close>

definition name_of :: "Mesh \<Rightarrow> js_string" where
  "name_of m = (case name m of Some n \<Rightarrow> n | None \<Rightarrow> [])"

text \<open>
  A node qualifies for inclusion, in the words of the specification: it is a mesh,
  plain or skinned; it is visible; the name of its slot does not start with an
  underscore; its name is not one of the two sentinel names; it has a position
  attribute with at least 3 vertices; the type of its geometry is not a plane; and
  neither its name nor the name of its slot contains one of the five words.
\<close>

definition qualifies :: "js_string \<Rightarrow> Mesh \<Rightarrow> bool" where
  "qualifies slot m =
     ((isMesh m \<or> isSkinnedMesh m)
      \<and> visible m
      \<and> \<not> has_prefix slot (str ''_'')
      \<and> \<not> sentinel (name m)
      \<and> (\<exists>g p. geometry m = Some g \<and> position g = Some p \<and> 3 \<le> count p
            \<and> geometry_type g \<noteq> str ''PlaneBufferGeometry''
            \<and> geometry_type g \<noteq> str ''PlaneGeometry'')
      \<and> \<not> list_ex (\<lambda>w. contains_ci (name_of m) w \<or> contains_ci slot w)
            [''ground'', ''floor'', ''plane'', ''shadow'', ''reflector''])"

text \<open>
  The classification rule in the words of the specification: the slot name or the
  node's own name starts with "base" or contains "pedestal", without regard to case.
\<close>

definition base_rule :: "js_string \<Rightarrow> Mesh \<Rightarrow> bool" where
  "base_rule slot m =
     (starts_with_ci slot ''base'' \<or> starts_with_ci (name_of m) ''base''
      \<or> contains_ci slot ''pedestal'' \<or> contains_ci (name_of m) ''pedestal'')"

subsection \<open>Reference definitions for the triangle assembler\<close>

text \<open>
  The candidate triangles of one extracted mesh, as triples of vertex indices: the
  index array in consecutive groups of three (an index past the end of the array is
  \<open>undefined\<close>), or without an index array the vertices \<open>i, i + 1, i + 2\<close> for
  \<open>i = 0, 3, 6, ...\<close> below \<open>positions.length / 3\<close>.
\<close>

definition candidate_indices :: "ExtractedGeometry \<Rightarrow> (int option \<times> int option \<times> int option) list" where
  "candidate_indices e =
     (case indices e of
        Some ixs \<Rightarrow>
          map (\<lambda>k. (indices_at ixs (3 * k), indices_at ixs (3 * k + 1), indices_at ixs (3 * k + 2)))
            [0..<(length ixs + 2) div 3]
      | None \<Rightarrow>
          map (\<lambda>k. (Some (int (3 * k)), Some (int (3 * k) + 1), Some (int (3 * k) + 2)))
            [0..<(length (positions e) + 8) div 9])"

text \<open>The same candidates as triples of vertices read from \<open>positions\<close>.\<close>

definition candidates :: "ExtractedGeometry \<Rightarrow> (RawVertex \<times> RawVertex \<times> RawVertex) list" where
  "candidates e =
     map (\<lambda>t. case t of (i0, i1, i2) \<Rightarrow>
            (getVertex (positions e) i0, getVertex (positions e) i1, getVertex (positions e) i2))
       (candidate_indices e)"

text \<open>The nine coordinates of a candidate.\<close>

definition coords :: "RawVertex \<times> RawVertex \<times> RawVertex \<Rightarrow> jsnum list" where
  "coords c = (case c of ((a, b, c), (d, e, f), (g, h, i)) \<Rightarrow> [a, b, c, d, e, f, g, h, i])"

text \<open>
  A coordinate with absolute value at least 100, in the words of the specification (an
  infinity is such a coordinate); a coordinate that is not a number, because it is
  missing or is NaN; and a coordinate that is one or the other.
\<close>

definition out_of_bound :: "jsnum \<Rightarrow> bool" where
  "out_of_bound c =
     (case c of
        Some (Num v) \<Rightarrow> \<bar>v\<bar> \<ge> 100
      | Some PInf \<Rightarrow> True
      | Some NInf \<Rightarrow> True
      | _ \<Rightarrow> False)"

definition not_a_number :: "jsnum \<Rightarrow> bool" where
  "not_a_number c = (c = None \<or> c = Some NaN)"

definition unusable :: "jsnum \<Rightarrow> bool" where
  "unusable c = (out_of_bound c \<or> not_a_number c)"

text \<open>A candidate is excluded when one of its nine coordinates is unusable.\<close>

definition excluded :: "RawVertex \<times> RawVertex \<times> RawVertex \<Rightarrow> bool" where
  "excluded c = list_ex unusable (coords c)"

text \<open>The triangle pushed for a candidate that is not excluded.\<close>

definition kept :: "RawVertex \<times> RawVertex \<times> RawVertex \<Rightarrow> Triangle" where
  "kept c = (case c of (a, b, c) \<Rightarrow> Triangle (checked a) (checked b) (checked c))"

text \<open>The extracted geometries of a list of meshes; \<open>None\<close> when one extraction throws.\<close>

fun extract_all :: "RK \<Rightarrow> Mesh list \<Rightarrow> ExtractedGeometry list option" where
  "extract_all rk [] = Some []"
| "extract_all rk (m # ms) =
     (case extractMeshGeometry rk m of
        None \<Rightarrow> None
      | Some e \<Rightarrow> map_option (Cons e) (extract_all rk ms))"

text \<open>A mesh with a geometry that has a position attribute.\<close>

definition has_positions :: "Mesh \<Rightarrow> bool" where
  "has_positions m = (case geometry m of None \<Rightarrow> False | Some g \<Rightarrow> position g \<noteq> None)"

text \<open>The state of \<open>collectTriangles\<close> after a list of candidates.\<close>

definition assembled :: "(RawVertex \<times> RawVertex \<times> RawVertex) list \<Rightarrow> Triangle list \<times> nat \<Rightarrow> Triangle list \<times> nat" where
  "assembled cs st =
     (fst st @ map kept (filter (\<lambda>c. \<not> excluded c) cs), snd st + length (filter excluded cs))"

subsection \<open>Reference definitions for the ground alignment\<close>

text \<open>
  The z coordinates of all vertices of a triangle list, and a least number of a list:
  one of its numbers that is less than or equal to each of them.
\<close>

definition zs64 :: "Triangle64 list \<Rightarrow> number list" where
  "zs64 ts = concat (map (\<lambda>t. [z64 (v1_64 t), z64 (v2_64 t), z64 (v3_64 t)]) ts)"

definition least64 :: "number list \<Rightarrow> number \<Rightarrow> bool" where
  "least64 zs m = (m \<in> set zs \<and> list_all (le64 m) zs)"

subsection \<open>Reference definitions for the binary mesh encoder\<close>

text \<open>Reading a 32-bit little-endian field, as \<open>DataView.getUint32(off, true)\<close> does.\<close>

definition read_u32 :: "buffer \<Rightarrow> nat \<Rightarrow> 32 word" where
  "read_u32 buf off =
     (case take 4 (drop off buf) of
        [b0, b1, b2, b3] \<Rightarrow>
          ucast b0 OR push_bit 8 (ucast b1) OR push_bit 16 (ucast b2) OR push_bit 24 (ucast b3)
      | _ \<Rightarrow> 0)"

text \<open>The 50 bytes of a triangle: twelve floats and the two reserved bytes.\<close>

definition record50 :: "Platform \<Rightarrow> Triangle \<Rightarrow> byte list" where
  "record50 pf tri =
     (let normal = calculateNormal (v1 tri) (v2 tri) (v3 tri)
      in concat (map (\<lambda>c. le32 (float32_bits pf c))
           [v_x normal, v_y normal, v_z normal,
            v_x (v1 tri), v_y (v1 tri), v_z (v1 tri),
            v_x (v2 tri), v_y (v2 tri), v_z (v2 tri),
            v_x (v3 tri), v_y (v3 tri), v_z (v3 tri)]) @ le16 0)"

text \<open>The header in the words of the specification: the first 80 character codes of the
  label, each reduced to a byte, padded with zeros to 80 bytes.\<close>

definition stl_header :: "js_string \<Rightarrow> byte list" where
  "stl_header headerText = map ucast (take 80 headerText) @ replicate (80 - length headerText) 0"


text \<open>The byte that the header loop stores at index \<open>i\<close>.\<close>

definition header_byte :: "js_string \<Rightarrow> nat \<Rightarrow> byte" where
  "header_byte headerText i = (if i < length headerText then ucast (headerText ! i) else 0)"





subsection \<open>Reference definitions for the archive encoder\<close>

text \<open>
  CRC-32 in the words of the specification, bit by bit: the reflected polynomial
  0xEDB88320, the register complemented at the start and at the end.
\<close>

definition crc_shift :: "32 word \<Rightarrow> 32 word" where
  "crc_shift c = (if bit c 0 then drop_bit 1 c XOR 0xEDB88320 else drop_bit 1 c)"

definition crc32_reference :: "buffer \<Rightarrow> 32 word" where
  "crc32_reference data = NOT (fold (\<lambda>b c. (crc_shift ^^ 8) (c XOR ucast b)) data (NOT 0))"

text \<open>The three kinds of record as sequences of little-endian fields.\<close>

definition local_header_bytes :: "byte list \<Rightarrow> buffer \<Rightarrow> byte list" where
  "local_header_bytes nameBytes data =
     le32 0x04034b50 @ le16 20 @ le16 0 @ le16 0 @ le16 0 @ le16 0 @
     le32 (crc32 data) @ le32 (of_nat (length data)) @ le32 (of_nat (length data)) @
     le16 (of_nat (length nameBytes)) @ le16 0 @ nameBytes"

definition central_header_bytes :: "byte list \<Rightarrow> buffer \<Rightarrow> nat \<Rightarrow> byte list" where
  "central_header_bytes nameBytes data localOffset =
     le32 0x02014b50 @ le16 20 @ le16 20 @ le16 0 @ le16 0 @ le16 0 @ le16 0 @
     le32 (crc32 data) @ le32 (of_nat (length data)) @ le32 (of_nat (length data)) @
     le16 (of_nat (length nameBytes)) @ le16 0 @ le16 0 @ le16 0 @ le16 0 @ le32 0 @
     le32 (of_nat localOffset) @ nameBytes"

definition eocd_bytes :: "nat \<Rightarrow> nat \<Rightarrow> nat \<Rightarrow> byte list" where
  "eocd_bytes numFiles centralSize centralOffset =
     le32 0x06054b50 @ le16 0 @ le16 0 @ le16 (of_nat numFiles) @ le16 (of_nat numFiles) @
     le32 (of_nat centralSize) @ le32 (of_nat centralOffset) @ le16 0"

text \<open>
  A local record is the local header followed by the data. \<open>offsets_from\<close> gives the
  offsets at which consecutive local records start; the archive is the local
  records, the central records and the end record.
\<close>

definition local_record :: "Platform \<Rightarrow> ZipFile \<Rightarrow> byte list" where
  "local_record pf file = local_header_bytes (utf8_encode pf (fst file)) (snd file) @ snd file"

fun offsets_from :: "Platform \<Rightarrow> nat \<Rightarrow> ZipFile list \<Rightarrow> nat list" where
  "offsets_from pf off [] = []"
| "offsets_from pf off (file # rest) = off # offsets_from pf (off + length (local_record pf file)) rest"

definition central_record :: "Platform \<Rightarrow> ZipFile \<times> nat \<Rightarrow> byte list" where
  "central_record pf fo =
     central_header_bytes (utf8_encode pf (fst (fst fo))) (snd (fst fo)) (snd fo)"

definition local_part :: "Platform \<Rightarrow> ZipFile list \<Rightarrow> byte list" where
  "local_part pf files = concat (map (local_record pf) files)"

definition central_part :: "Platform \<Rightarrow> ZipFile list \<Rightarrow> byte list" where
  "central_part pf files = concat (map (central_record pf) (zip files (offsets_from pf 0 files)))"

definition archive_bytes :: "Platform \<Rightarrow> ZipFile list \<Rightarrow> byte list" where
  "archive_bytes pf files =
     local_part pf files @ central_part pf files @
     eocd_bytes (length files) (length (central_part pf files)) (length (local_part pf files))"

text \<open>The entry of \<open>localHeaders\<close> for a file and its offset.\<close>

definition mk_local :: "Platform \<Rightarrow> ZipFile \<times> nat \<Rightarrow> LocalHeader" where
  "mk_local pf fo =
     \<lparr>lh_header = local_header_bytes (utf8_encode pf (fst (fst fo))) (snd (fst fo)),
      lh_data = snd (fst fo), lh_offset = snd fo\<rparr>"

text \<open>
  A reader of archives: the end record gives the number of entries and the offset of
  the central directory, each central record gives a name, a checksum and the offset
  of a local record, and the local record gives a name, the data and a checksum.
\<close>

definition read_u16 :: "buffer \<Rightarrow> nat \<Rightarrow> 16 word" where
  "read_u16 buf off =
     (case take 2 (drop off buf) of
        [b0, b1] \<Rightarrow> ucast b0 OR push_bit 8 (ucast b1)
      | _ \<Rightarrow> 0)"

definition slice :: "buffer \<Rightarrow> nat \<Rightarrow> nat \<Rightarrow> byte list" where
  "slice buf off n = take n (drop off buf)"

record ZipEntry =
  entry_offset :: nat
  local_signature :: "32 word"
  entry_name :: "byte list"
  entry_data :: buffer
  crc_local :: "32 word"
  central_name :: "byte list"
  crc_central :: "32 word"

definition parse_central :: "buffer \<Rightarrow> nat \<Rightarrow> (byte list \<times> 32 word \<times> nat) \<times> nat" where
  "parse_central buf off =
     (let nlen = unat (read_u16 buf (off + 28))
      in ((slice buf (off + 46) nlen, read_u32 buf (off + 16), unat (read_u32 buf (off + 42))),
          off + 46 + nlen))"

fun parse_directory :: "buffer \<Rightarrow> nat \<Rightarrow> nat \<Rightarrow> (byte list \<times> 32 word \<times> nat) list" where
  "parse_directory buf 0 off = []"
| "parse_directory buf (Suc n) off =
     fst (parse_central buf off) # parse_directory buf n (snd (parse_central buf off))"

definition parse_entry :: "buffer \<Rightarrow> byte list \<times> 32 word \<times> nat \<Rightarrow> ZipEntry" where
  "parse_entry buf c =
     (case c of
        (cname, ccrc, off) \<Rightarrow>
          let nlen = unat (read_u16 buf (off + 26));
              size = unat (read_u32 buf (off + 22))
          in \<lparr>entry_offset = off,
              local_signature = read_u32 buf off,
              entry_name = slice buf (off + 30) nlen,
              entry_data = slice buf (off + 30 + nlen) size,
              crc_local = read_u32 buf (off + 14),
              central_name = cname,
              crc_central = ccrc\<rparr>)"

definition unzip :: "buffer \<Rightarrow> ZipEntry list" where
  "unzip buf =
     (let eocd = length buf - 22;
          n = unat (read_u16 buf (eocd + 10));
          cd = unat (read_u32 buf (eocd + 16))
      in map (parse_entry buf) (parse_directory buf n cd))"

text \<open>
  The sizes that the fields of the format can hold: 16 bits for the number of entries
  and for the length of a name, 32 bits for sizes and offsets.
\<close>

definition zip_fits :: "Platform \<Rightarrow> ZipFile list \<Rightarrow> bool" where
  "zip_fits pf files =
     (length files < 2 ^ 16 \<and>
      list_all (\<lambda>f. length (utf8_encode pf (fst f)) < 2 ^ 16) files \<and>
      length (local_part pf files) < 2 ^ 32)"

text \<open>What a reader should find for a file and the offset of its local record.\<close>

definition expected_entry :: "Platform \<Rightarrow> ZipFile \<times> nat \<Rightarrow> ZipEntry" where
  "expected_entry pf fo =
     \<lparr>entry_offset = snd fo,
      local_signature = 0x04034b50,
      entry_name = utf8_encode pf (fst (fst fo)),
      entry_data = snd (fst fo),
      crc_local = crc32_reference (snd (fst fo)),
      central_name = utf8_encode pf (fst (fst fo)),
      crc_central = crc32_reference (snd (fst fo))\<rparr>"

subsection \<open>Reference definitions for the export\<close>

text \<open>
  The binary mesh buffer of a group of meshes: its triangles, transformed with the
  scale factor, encoded under a label.
\<close>

definition mesh_file :: "RK \<Rightarrow> Platform \<Rightarrow> Mesh list \<Rightarrow> real \<Rightarrow> js_string \<Rightarrow> buffer option" where
  "mesh_file rk pf ms sc label =
     (case collectTriangles rk ms of
        None \<Rightarrow> None
      | Some r \<Rightarrow> trianglesToSTL pf (transformTriangles (fst r) sc) label)"

text \<open>The options as the call sees them, with the defaults filled in.\<close>

definition file_base :: "ExportOptions \<Rightarrow> js_string" where
  "file_base options = (case filename options of Some f \<Rightarrow> f | None \<Rightarrow> str ''heroforge-character'')"

definition scale_factor :: "ExportOptions \<Rightarrow> real" where
  "scale_factor options = (case scale options of Some x \<Rightarrow> x | None \<Rightarrow> 10)"

definition separate_mode :: "ExportOptions \<Rightarrow> bool" where
  "separate_mode options = (case separateBase options of Some b \<Rightarrow> b | None \<Rightarrow> True)"

subsection \<open>Example scenes\<close>

definition scale2 :: Matrix4 where
  "scale2 = [2, 0, 0, 0,  0, 2, 0, 0,  0, 0, 2, 0,  0, 0, 0, 1]"

definition shift_x :: "real \<Rightarrow> Matrix4" where
  "shift_x d = [1, 0, 0, 0,  0, 1, 0, 0,  0, 0, 1, 0,  d, 0, 0, 1]"

text \<open>Three vertices on the x axis, and a skin attribute that binds every vertex to bone 0
  with the encoded weight 1.\<close>

definition tri_attr :: BufferAttribute where
  "tri_attr = \<lparr>count = 3, getX = (\<lambda>i. real i), getY = (\<lambda>i. 0), getZ = (\<lambda>i. 0), getW = (\<lambda>i. 0)\<rparr>"

definition bone0_attr :: BufferAttribute where
  "bone0_attr = \<lparr>count = 3, getX = (\<lambda>i. 0), getY = (\<lambda>i. 1), getZ = (\<lambda>i. 0), getW = (\<lambda>i. 0)\<rparr>"

definition plain_geometry :: BufferGeometry where
  "plain_geometry =
     \<lparr>geometry_type = str ''BufferGeometry'', position = Some tri_attr,
      skin0 = None, skin1 = None, skin2 = None, skin3 = None,
      index = None, morphPosition = None\<rparr>"

definition skinned_geometry :: BufferGeometry where
  "skinned_geometry = plain_geometry\<lparr>skin0 := Some bone0_attr\<rparr>"

text \<open>A skeleton of one bone that doubles every length, and one whose bone has no world
  matrix.\<close>

definition one_bone :: Skeleton where
  "one_bone =
     \<lparr>bones = Some [Some \<lparr>bone_matrixWorld = Some scale2, getMatrixWorld = None\<rparr>],
      boneInverses = Some [Some identity4]\<rparr>"

definition bare_bone :: Skeleton where
  "bare_bone =
     \<lparr>bones = Some [Some \<lparr>bone_matrixWorld = None, getMatrixWorld = None\<rparr>],
      boneInverses = Some [Some scale2]\<rparr>"

text \<open>A skinned mesh whose bind matrix moves it by one unit along x.\<close>

definition torso :: Mesh where
  "torso =
     Mesh True True True (Some (str ''Torso'')) (Some skinned_geometry) (Some one_bone)
       identity4 (Some (shift_x 1)) (Some (shift_x (- 1))) None None"

definition pedestal :: Mesh where
  "pedestal =
     Mesh True False True (Some (str ''Pedestal'')) (Some plain_geometry) None
       identity4 None None None None"

definition scenario :: CK where
  "scenario =
     \<lparr>activeDisplay = Some \<lparr>meshes = Some [(str ''base_01'', Some pedestal), (str ''body'', Some torso)]\<rparr>\<rparr>"

text \<open>
  A scene whose only mesh, "Eye", lies below a group named "facePads"; and a mesh
  "Stone_PEDESTAL" for the slot "body".
\<close>

definition eye :: Mesh where
  "eye =
     Mesh True False True (Some (str ''Eye'')) (Some plain_geometry) None
       identity4 None None None None"

definition face_pads :: Mesh where
  "face_pads =
     Mesh False False True (Some (str ''facePads'')) None None
       identity4 None None None (Some [eye])"

definition head :: Mesh where
  "head =
     Mesh False False True (Some (str ''Head'')) None None
       identity4 None None None (Some [face_pads])"

definition hidden_scene :: CK where
  "hidden_scene = \<lparr>activeDisplay = Some \<lparr>meshes = Some [(str ''body'', Some head)]\<rparr>\<rparr>"

definition stone :: Mesh where
  "stone =
     Mesh True False True (Some (str ''Stone_PEDESTAL'')) (Some plain_geometry) None
       identity4 None None None None"

text \<open>A mesh of four vertices on the x axis without an index array.\<close>

definition quad_attr :: BufferAttribute where
  "quad_attr = \<lparr>count = 4, getX = (\<lambda>i. real i), getY = (\<lambda>i. 0), getZ = (\<lambda>i. 0), getW = (\<lambda>i. 0)\<rparr>"

definition quad :: Mesh where
  "quad =
     Mesh True False True (Some (str ''Quad''))
       (Some (plain_geometry\<lparr>position := Some quad_attr\<rparr>)) None
       identity4 None None None None"

text \<open>The positions of one triangle whose first coordinate is NaN.\<close>

definition nan_corner :: ExtractedGeometry where
  "nan_corner =
     \<lparr>positions = [NaN, Num 0, Num 0, Num 1, Num 0, Num 0, Num 0, Num 1, Num 0],
      indices = None\<rparr>"

text \<open>
  Two triangles with binary64 coordinates; the second has a corner at the height of
  the binary64 number nearest to -51.18.
\<close>

definition slanted :: Triangle64 where
  "slanted =
     Triangle64 (Vertex64 (Num 0) (Num 1) (Num 0)) (Vertex64 (Num 1) (Num 2) (Num 3))
       (Vertex64 (Num 2) (Num 0) (Num (- 1)))"

definition low_corner :: Triangle64 where
  "low_corner =
     Triangle64 (Vertex64 (Num 0) (Num (- 7202944654025687 / 2 ^ 47)) (Num 0))
       (Vertex64 (Num 1) (Num 0) (Num 0)) (Vertex64 (Num 0) (Num 0) (Num 1))"

text \<open>
  An instance of the platform for the examples: the binary32 bits of the numbers 0, 1,
  2 and -1 (any other number gets the bits of a NaN here), and the UTF-8 encoding of
  ASCII strings.
\<close>

definition example_platform :: Platform where
  "example_platform =
     \<lparr>float32_bits =
        (\<lambda>x. if x = 0 then 0 else if x = 1 then 0x3F800000 else if x = 2 then 0x40000000
             else if x = - 1 then 0xBF800000 else 0x7FC00000),
      utf8_encode = map ucast\<rparr>"


text \<open>A file name of 65536 letters.\<close>

definition long_name :: js_string where
  "long_name = replicate 65536 0x61"

text \<open>The page with the scene of the scenario, and one whose scene is the pedestal alone;
  the options with every field left out.\<close>

definition scenario_env :: Env where
  "scenario_env = \<lparr>env_CK = Some scenario, env_RK = Some threeRK, env_platform = example_platform\<rparr>"

definition pedestal_env :: Env where
  "pedestal_env =
     \<lparr>env_CK = Some \<lparr>activeDisplay = Some \<lparr>meshes = Some [(str ''base_01'', Some pedestal)]\<rparr>\<rparr>,
      env_RK = Some threeRK, env_platform = example_platform\<rparr>"

definition no_options :: ExportOptions where
  "no_options = \<lparr>filename = None, scale = None, separateBase = None\<rparr>"

section \<open>Properties\<close>

subsection \<open>Rounding to binary64\<close>

lemma real_pow2_le: "2 ^ k \<le> (n::int) \<Longrightarrow> (2::real) ^ k \<le> real_of_int n"
  by (metis of_int_le_iff of_int_numeral of_int_power)

lemma real_le_pow2: "(n::int) \<le> 2 ^ k \<Longrightarrow> real_of_int n \<le> 2 ^ k"
  by (metis of_int_le_iff of_int_numeral of_int_power)

lemma powi_neg: "0 \<le> n \<Longrightarrow> (2::real) powi (- n) = 1 / 2 ^ nat n"
  by (simp add: power_int_minus power_int_def inverse_eq_divide power_one_over)

lemma ilog2_bounds:
  assumes "0 < x"
  shows "2 powi ilog2 x \<le> x" and "x < 2 powi (ilog2 x + 1)"
proof -
  have "2 powi ilog2 x \<le> x \<and> x < 2 powi (ilog2 x + 1)"
  proof (cases "1 \<le> x")
    case True
    define n where "n = \<lfloor>x\<rfloor>"
    have n: "0 < n" using True by (simp add: n_def)
    have b1: "1 \<le> bitlen n" using n by (simp add: bitlen_alt_def)
    from bitlen_bounds [OF n] have lo: "2 ^ nat (bitlen n - 1) \<le> n" and hi: "n < 2 ^ nat (bitlen n)"
      by auto
    have il: "ilog2 x = bitlen n - 1" using True by (simp add: ilog2_def n_def)
    have "(2::real) powi (bitlen n - 1) = 2 ^ nat (bitlen n - 1)"
      using b1 by (simp add: power_int_def)
    moreover have "(2::real) ^ nat (bitlen n - 1) \<le> real_of_int n"
      using lo by (rule real_pow2_le)
    moreover have "real_of_int n \<le> x" by (simp add: n_def)
    ultimately have l: "2 powi ilog2 x \<le> x" unfolding il by linarith
    have "(2::real) powi (bitlen n) = 2 ^ nat (bitlen n)"
      using b1 by (simp add: power_int_def)
    moreover have "n + 1 \<le> 2 ^ nat (bitlen n)" using hi by linarith
    then have "real_of_int (n + 1) \<le> (2::real) ^ nat (bitlen n)"
      by (rule real_le_pow2)
    moreover have "x < real_of_int (n + 1)" unfolding n_def by linarith
    ultimately have "x < 2 powi (ilog2 x + 1)" unfolding il by simp
    with l show ?thesis by simp
  next
    case False
    define m where "m = \<lceil>1 / x\<rceil> - 1"
    have gt: "1 < 1 / x" using False assms by simp
    then have m: "0 < m" unfolding m_def by linarith
    have b1: "1 \<le> bitlen m" using m by (simp add: bitlen_alt_def)
    from bitlen_bounds [OF m] have lo: "2 ^ nat (bitlen m - 1) \<le> m" and hi: "m < 2 ^ nat (bitlen m)"
      by auto
    have il: "ilog2 x = - bitlen m" using False by (simp add: ilog2_def m_def)
    have "1 / x \<le> real_of_int (m + 1)" unfolding m_def by simp
    moreover have "m + 1 \<le> 2 ^ nat (bitlen m)" using hi by linarith
    then have "real_of_int (m + 1) \<le> (2::real) ^ nat (bitlen m)"
      by (rule real_le_pow2)
    ultimately have "1 / x \<le> 2 ^ nat (bitlen m)" by linarith
    then have "1 / 2 ^ nat (bitlen m) \<le> x"
      using assms by (simp add: field_simps)
    moreover have "(2::real) powi (- bitlen m) = 1 / 2 ^ nat (bitlen m)"
      using b1 by (simp add: powi_neg)
    ultimately have l: "2 powi ilog2 x \<le> x" unfolding il by simp
    have "real_of_int m < 1 / x" unfolding m_def by linarith
    moreover have "(2::real) ^ nat (bitlen m - 1) \<le> real_of_int m"
      using lo by (rule real_pow2_le)
    ultimately have "2 ^ nat (bitlen m - 1) < 1 / x" by linarith
    then have "x < 1 / 2 ^ nat (bitlen m - 1)"
      using assms by (simp add: field_simps)
    moreover have "(2::real) powi (- bitlen m + 1) = 1 / 2 ^ nat (bitlen m - 1)"
    proof -
      have "- bitlen m + 1 = - (bitlen m - 1)" by simp
      then show ?thesis using b1 powi_neg [of "bitlen m - 1"] by simp
    qed
    ultimately have "x < 2 powi (ilog2 x + 1)" unfolding il by simp
    with l show ?thesis by simp
  qed
  then show "2 powi ilog2 x \<le> x" and "x < 2 powi (ilog2 x + 1)" by simp_all
qed

lemma powi_mono: "a \<le> b \<Longrightarrow> (2::real) powi a \<le> 2 powi b"
  by (rule power_int_increasing) simp_all

lemma powi_strict: "(2::real) powi a < 2 powi b \<Longrightarrow> a < b"
  by (meson not_less powi_mono)

lemma ilog2_unique:
  assumes "0 < x" "2 powi k \<le> x" "x < 2 powi (k + 1)"
  shows "ilog2 x = k"
proof -
  have "2 powi k < (2::real) powi (ilog2 x + 1)"
    using assms(2) ilog2_bounds(2) [OF assms(1)] by linarith
  then have "k < ilog2 x + 1" by (rule powi_strict)
  moreover have "2 powi ilog2 x < (2::real) powi (k + 1)"
    using assms(3) ilog2_bounds(1) [OF assms(1)] by linarith
  then have "ilog2 x < k + 1" by (rule powi_strict)
  ultimately show ?thesis by linarith
qed


lemma round_even_error: "\<bar>real_of_int (round_even t) - t\<bar> \<le> 1 / 2"
  unfolding round_even_def Let_def by (simp; linarith)

lemma round_even_of_int [simp]: "round_even (of_int n) = n"
  by (simp add: round_even_def)

lemma round_even_mono:
  assumes "s \<le> t"
  shows "round_even s \<le> round_even t"
proof (cases "\<lfloor>s\<rfloor> = \<lfloor>t\<rfloor>")
  case True
  then show ?thesis
    using assms unfolding round_even_def Let_def by (auto split: if_splits)
next
  case False
  then have lt: "\<lfloor>s\<rfloor> + 1 \<le> \<lfloor>t\<rfloor>" using floor_mono [OF assms] by linarith
  have "round_even s \<le> \<lfloor>s\<rfloor> + 1"
    unfolding round_even_def Let_def by (auto split: if_splits)
  moreover have "\<lfloor>t\<rfloor> \<le> round_even t"
    unfolding round_even_def Let_def by (auto split: if_splits)
  ultimately show ?thesis using lt by linarith
qed

lemma round_even_ge: "of_int n \<le> t \<Longrightarrow> n \<le> round_even t"
  using round_even_mono [of "of_int n" t] by simp

lemma round_even_le: "t \<le> of_int n \<Longrightarrow> round_even t \<le> n"
  using round_even_mono [of t "of_int n"] by simp

lemma round_even_minus: "round_even (- t) = - round_even t"
proof (cases "t = of_int \<lfloor>t\<rfloor>")
  case True
  then obtain n where "t = of_int n" ..
  then show ?thesis by (simp flip: of_int_minus)
next
  case False
  then have f: "\<lfloor>- t\<rfloor> = - \<lfloor>t\<rfloor> - 1"
    by (metis ceiling_altdef ceiling_def add_diff_cancel minus_diff_eq
        uminus_add_conv_diff minus_minus)
  show ?thesis
    unfolding round_even_def Let_def f by (simp; linarith?)
qed


lemma powi_pos: "0 < (2::real) powi k"
  by simp

lemma powi_add: "(2::real) powi (a + b) = 2 powi a * 2 powi b"
  by (simp add: power_int_add)

lemma powi_nat: "0 \<le> k \<Longrightarrow> (2::real) powi k = 2 ^ nat k"
  by (simp add: power_int_def)

lemma expo_minus [simp]: "expo (- x) = expo x"
  by (simp add: expo_def)

lemma expo_ge: "- 1074 \<le> expo x"
  by (simp add: expo_def)

lemma expo_upper:
  assumes "x \<noteq> 0"
  shows "\<bar>x\<bar> < 2 powi (expo x + 53)"
proof -
  have "\<bar>x\<bar> < 2 powi (ilog2 \<bar>x\<bar> + 1)"
    using ilog2_bounds(2) [of "\<bar>x\<bar>"] assms by simp
  also have "\<dots> \<le> 2 powi (expo x + 53)"
    by (rule powi_mono) (simp add: expo_def)
  finally show ?thesis .
qed

lemma expo_lower:
  assumes "x \<noteq> 0" "- 1074 < expo x"
  shows "2 powi (expo x + 52) \<le> \<bar>x\<bar>"
proof -
  have "expo x = ilog2 \<bar>x\<bar> - 52"
    using assms(2) by (simp add: expo_def max_def split: if_splits)
  then show ?thesis
    using ilog2_bounds(1) [of "\<bar>x\<bar>"] assms(1) by simp
qed

lemma expo_eq:
  assumes "- 1074 \<le> k" "2 powi (k + 52) \<le> \<bar>x\<bar>" "\<bar>x\<bar> < 2 powi (k + 53)"
  shows "expo x = k"
proof -
  have "0 < (2::real) powi (k + 52)" by simp
  then have pos: "0 < \<bar>x\<bar>" using assms(2) by linarith
  have e: "k + 52 + 1 = k + 53" by simp
  have "ilog2 \<bar>x\<bar> = k + 52"
    by (rule ilog2_unique [OF pos assms(2)]) (unfold e, rule assms(3))
  then show ?thesis using assms(1) by (simp add: expo_def)
qed

lemma expo_subnormal:
  assumes "x \<noteq> 0" "\<bar>x\<bar> < 2 powi (- 1022)"
  shows "expo x = - 1074"
proof -
  have "2 powi ilog2 \<bar>x\<bar> < (2::real) powi (- 1022)"
    using ilog2_bounds(1) [of "\<bar>x\<bar>"] assms by simp
  then have "ilog2 \<bar>x\<bar> < - 1022" by (rule powi_strict)
  then show ?thesis by (simp add: expo_def)
qed

lemma ilog2_mono:
  assumes "0 < x" "x \<le> y"
  shows "ilog2 x \<le> ilog2 y"
proof -
  have "2 powi ilog2 x < (2::real) powi (ilog2 y + 1)"
    using ilog2_bounds(1) [of x] ilog2_bounds(2) [of y] assms by linarith
  then have "ilog2 x < ilog2 y + 1" by (rule powi_strict)
  then show ?thesis by simp
qed

lemma expo_mono:
  assumes "0 < x" "x \<le> y"
  shows "expo x \<le> expo y"
  using ilog2_mono [of "\<bar>x\<bar>" "\<bar>y\<bar>"] assms by (simp add: expo_def)

lemma rnd_minus: "rnd (- x) = - rnd x"
  by (simp add: rnd_def round_even_minus)

lemma round_even_zero [simp]: "round_even 0 = 0"
  using round_even_of_int [of 0] by simp

lemma rnd_zero [simp]: "rnd 0 = 0"
  by (simp add: rnd_def)

lemma rnd_error: "\<bar>rnd x - x\<bar> \<le> 2 powi expo x / 2"
proof -
  let ?p = "(2::real) powi expo x"
  have p: "0 < ?p" by simp
  have "rnd x - x = (of_int (round_even (x / ?p)) - x / ?p) * ?p"
    using p by (simp add: rnd_def left_diff_distrib)
  then have "\<bar>rnd x - x\<bar> = \<bar>of_int (round_even (x / ?p)) - x / ?p\<bar> * ?p"
    using p by (simp add: abs_mult)
  also have "\<dots> \<le> 1 / 2 * ?p"
    using round_even_error [of "x / ?p"] p by (intro mult_right_mono) simp_all
  finally show ?thesis by simp
qed

lemma rnd_nonneg: "0 \<le> x \<Longrightarrow> 0 \<le> rnd x"
  using round_even_ge [of 0 "x / 2 powi expo x"] by (simp add: rnd_def)

lemma rnd_grid:
  assumes "x = of_int j * 2 powi k" "\<bar>j\<bar> < 2 ^ 53" "- 1074 \<le> k"
  shows "rnd x = x"
proof (cases "x = 0")
  case True
  then show ?thesis by simp
next
  case False
  have "\<bar>real_of_int j\<bar> < 2 ^ 53"
    using assms(2) by (metis of_int_abs of_int_less_iff of_int_numeral of_int_power)
  then have "\<bar>x\<bar> < 2 ^ 53 * 2 powi k"
    unfolding assms(1) abs_mult by (simp add: mult_strict_right_mono)
  also have "\<dots> = 2 powi (k + 53)"
    by (simp add: powi_add powi_nat)
  finally have up: "\<bar>x\<bar> < 2 powi (k + 53)" .
  have "2 powi ilog2 \<bar>x\<bar> < (2::real) powi (k + 53)"
    using ilog2_bounds(1) [of "\<bar>x\<bar>"] False up by simp
  then have "ilog2 \<bar>x\<bar> < k + 53" by (rule powi_strict)
  then have le: "expo x \<le> k" using assms(3) by (simp add: expo_def)
  define d where "d = nat (k - expo x)"
  define p where "p = (2::real) powi expo x"
  have p: "0 < p" by (simp add: p_def)
  have "k = expo x + int d" using le by (simp add: d_def)
  then have "(2::real) powi k = p * 2 ^ d"
    by (simp add: powi_add powi_nat p_def)
  then have "x = of_int j * (p * 2 ^ d)" using assms(1) by simp
  then have q: "x / p = of_int (j * 2 ^ d)" using p by simp
  then have "round_even (x / p) = j * 2 ^ d"
    by (simp only: round_even_of_int)
  then have "rnd x = of_int (j * 2 ^ d) * p"
    by (simp add: rnd_def p_def)
  also have "\<dots> = x" using q p by (simp add: field_simps)
  finally show ?thesis .
qed

lemma rnd_mono_pos:
  assumes "0 < x" "x \<le> y"
  shows "rnd x \<le> rnd y"
proof (cases "expo x = expo y")
  case True
  have "x / 2 powi expo y \<le> y / 2 powi expo y"
    using assms(2) by (simp add: divide_right_mono)
  then have "round_even (x / 2 powi expo y) \<le> round_even (y / 2 powi expo y)"
    by (rule round_even_mono)
  then show ?thesis
    unfolding rnd_def True by (simp add: mult_right_mono)
next
  case False
  then have lt: "expo x < expo y" using expo_mono [OF assms] by simp
  have x0: "x \<noteq> 0" and y0: "y \<noteq> 0" using assms by auto
  have "x / 2 powi expo x \<le> 2 ^ 53"
    using expo_upper [OF x0] assms(1) by (simp add: powi_add powi_nat field_simps)
  then have "round_even (x / 2 powi expo x) \<le> 2 ^ 53"
    using round_even_le [of "x / 2 powi expo x" "2 ^ 53"] by simp
  then have "real_of_int (round_even (x / 2 powi expo x)) \<le> 2 ^ 53"
    by (rule real_le_pow2)
  then have "rnd x \<le> 2 ^ 53 * 2 powi expo x"
    unfolding rnd_def by (simp add: mult_right_mono)
  also have "\<dots> = 2 powi (expo x + 53)"
    by (simp add: powi_add powi_nat)
  also have "\<dots> \<le> 2 powi (expo y + 52)"
    by (rule powi_mono) (use lt in simp)
  also have "\<dots> \<le> rnd y"
  proof -
    have "- 1074 < expo y" using lt expo_ge [of x] by linarith
    from expo_lower [OF y0 this] assms have "2 ^ 52 \<le> y / 2 powi expo y"
      by (simp add: powi_add powi_nat field_simps)
    then have "2 ^ 52 \<le> round_even (y / 2 powi expo y)"
      using round_even_ge [of "2 ^ 52" "y / 2 powi expo y"] by simp
    then have "2 ^ 52 \<le> real_of_int (round_even (y / 2 powi expo y))"
      by (rule real_pow2_le)
    then have "2 ^ 52 * 2 powi expo y \<le> rnd y"
      unfolding rnd_def by (simp add: mult_right_mono)
    then show ?thesis by (simp add: powi_add powi_nat mult.commute)
  qed
  finally show ?thesis .
qed

lemma rnd_mono:
  assumes "x \<le> y"
  shows "rnd x \<le> rnd y"
proof -
  consider "0 < x" | "x \<le> 0" "0 \<le> y" | "y < 0" by linarith
  then show ?thesis
  proof cases
    case 1
    then show ?thesis using assms by (rule rnd_mono_pos)
  next
    case 2
    have "rnd x \<le> 0" using rnd_nonneg [of "- x"] 2(1) by (simp add: rnd_minus)
    moreover have "0 \<le> rnd y" using 2(2) by (rule rnd_nonneg)
    ultimately show ?thesis by linarith
  next
    case 3
    have "rnd (- y) \<le> rnd (- x)" using 3 assms by (intro rnd_mono_pos) simp_all
    then show ?thesis by (simp add: rnd_minus)
  qed
qed

lemma rnd_abs_le:
  assumes "\<bar>x\<bar> \<le> b" "rnd b = b"
  shows "\<bar>rnd x\<bar> \<le> b"
proof -
  have "rnd x \<le> rnd b" using assms(1) by (intro rnd_mono) linarith
  moreover have "rnd (- b) \<le> rnd x" using assms(1) by (intro rnd_mono) linarith
  ultimately show ?thesis using assms(2) by (simp add: rnd_minus abs_le_iff)
qed

lemma rnd_eval:
  assumes "- 1074 \<le> k" "2 powi (k + 52) \<le> \<bar>x\<bar>" "\<bar>x\<bar> < 2 powi (k + 53)"
  shows "rnd x = of_int (round_even (x / 2 powi k)) * 2 powi k"
  by (simp add: rnd_def expo_eq [OF assms])

lemma round64_grid:
  assumes "x = of_int j * 2 powi k" "\<bar>j\<bar> < 2 ^ 53" "- 1074 \<le> k" "\<bar>x\<bar> < 2 ^ 1024"
  shows "round64 x = Num x"
  using rnd_grid [OF assms(1-3)] assms(4) by (simp add: round64_def)

lemma round64_eval:
  assumes "- 1074 \<le> k" "2 powi (k + 52) \<le> \<bar>x\<bar>" "\<bar>x\<bar> < 2 powi (k + 53)" "k \<le> 970"
  shows "round64 x = Num (of_int (round_even (x / 2 powi k)) * 2 powi k)"
proof -
  let ?q = "round_even (x / 2 powi k)"
  have r: "rnd x = of_int ?q * 2 powi k" by (rule rnd_eval [OF assms(1-3)])
  have up: "\<bar>x\<bar> / 2 powi k \<le> 2 ^ 53"
    using assms(3) by (simp add: powi_add powi_nat field_simps)
  have "x / 2 powi k \<le> \<bar>x\<bar> / 2 powi k" "- (\<bar>x\<bar> / 2 powi k) \<le> x / 2 powi k"
    by (simp_all add: field_simps)
  with up have b: "x / 2 powi k \<le> of_int (2 ^ 53)" "of_int (- (2 ^ 53)) \<le> x / 2 powi k"
    by simp_all
  have "?q \<le> 2 ^ 53" by (rule round_even_le [OF b(1)])
  moreover have "- (2 ^ 53) \<le> ?q" by (rule round_even_ge [OF b(2)])
  ultimately have "\<bar>?q\<bar> \<le> 2 ^ 53" by linarith
  then have "\<bar>real_of_int ?q\<bar> \<le> 2 ^ 53"
    by (metis of_int_abs real_le_pow2)
  then have "\<bar>rnd x\<bar> \<le> 2 ^ 53 * 2 powi k"
    unfolding r abs_mult by (simp add: mult_right_mono)
  also have "\<dots> \<le> 2 ^ 53 * 2 powi 970"
    by (intro mult_left_mono powi_mono assms(4)) simp
  also have "\<dots> < 2 ^ 1024" by (simp add: powi_nat)
  finally show ?thesis by (simp add: round64_def r)
qed

lemma is_binary64_grid51:
  assumes "x = of_int j / 2 ^ 51" "\<bar>x\<bar> < 4"
  shows "is_binary64 x"
proof -
  have "\<bar>real_of_int j\<bar> < 2 ^ 53" using assms by (simp add: field_simps)
  then have "\<bar>j\<bar> < 2 ^ 53"
    by (metis of_int_abs of_int_less_iff of_int_numeral of_int_power)
  moreover have "x = of_int j * 2 powi (- 51)"
    using assms(1) by (simp add: powi_neg)
  moreover have "\<bar>x\<bar> < 2 ^ 1024" using assms(2) by simp
  ultimately show ?thesis
    unfolding is_binary64_def by (intro round64_grid [of x j "- 51"]) simp_all
qed

text \<open>The remainder by 2 stays on the grid of the multiples of \<open>2 powi (- 51)\<close>.\<close>

lemma js_rem_grid51:
  assumes "x = of_int j / 2 ^ 51"
  shows "js_rem x 2 = of_int (j - 2 ^ 52 * js_trunc (x / 2)) / 2 ^ 51"
  unfolding js_rem_def using assms by (simp add: field_simps)

subsection \<open>Weight decoding\<close>

lemma js_rem_2_bounds: "- 2 < js_rem x 2 \<and> js_rem x 2 < 2"
  unfolding js_rem_def js_trunc_def by (auto; linarith)

lemma js_rem_2_nonneg: "0 \<le> x \<Longrightarrow> js_rem x 2 = x - 2 * of_int \<lfloor>x / 2\<rfloor>"
  unfolding js_rem_def js_trunc_def by auto

lemma floor_rem_2_bounds:
  fixes y :: real
  shows "0 \<le> y - 2 * of_int \<lfloor>y / 2\<rfloor>" and "y - 2 * of_int \<lfloor>y / 2\<rfloor> < 2"
  by linarith+

lemma residue_2_unique:
  fixes a b :: real
  assumes "0 \<le> a" "a < 2" "0 \<le> b" "b < 2" "a - b = 2 * of_int k"
  shows "a = b"
proof -
  have "\<bar>2 * (of_int k :: real)\<bar> < 2" using assms by linarith
  then have "\<bar>(of_int k :: real)\<bar> < 1" by linarith
  then have "k = 0" by linarith
  with assms show ?thesis by simp
qed

text \<open>The double remainder of the source is the floored remainder by 2.\<close>

lemma mod_pos_2: "js_rem (js_rem x 2 + 2) 2 = x - 2 * of_int \<lfloor>x / 2\<rfloor>"
proof -
  let ?r = "js_rem x 2"
  have b: "- 2 < ?r" "?r < 2" using js_rem_2_bounds by auto
  have e: "js_rem (?r + 2) 2 = (?r + 2) - 2 * of_int \<lfloor>(?r + 2) / 2\<rfloor>"
    using b by (intro js_rem_2_nonneg) linarith
  let ?a = "js_rem (?r + 2) 2" and ?b = "x - 2 * of_int \<lfloor>x / 2\<rfloor>"
  have a1: "0 \<le> ?a" "?a < 2"
    using floor_rem_2_bounds [of "?r + 2"] by (simp_all only: e)
  have b1: "0 \<le> ?b" "?b < 2" by (rule floor_rem_2_bounds)+
  have "?a - ?b = 2 * of_int (1 - \<lfloor>(?r + 2) / 2\<rfloor> - js_trunc (x / 2) + \<lfloor>x / 2\<rfloor>)"
    unfolding e by (simp add: js_rem_def algebra_simps)
  from residue_2_unique [OF a1 b1 this] show ?thesis .
qed

lemma decodeWeight_floor:
  "decodeWeight w = \<bar>(w + 1) - 2 * of_int \<lfloor>(w + 1) / 2\<rfloor> - 1\<bar>"
  by (simp add: decodeWeight_def mod_pos_2)

lemma decodeWeight_shift: "decodeWeight (w + 2 * of_int k) = decodeWeight w"
proof -
  have "\<lfloor>(w + 2 * of_int k + 1) / 2\<rfloor> = \<lfloor>(w + 1) / 2\<rfloor> + k"
    by (simp add: add_divide_distrib) linarith
  then show ?thesis by (simp add: decodeWeight_floor algebra_simps)
qed

text \<open>
  On binary64 numbers the function agrees with its exact counterpart when the first
  sum is exact and the weight is a multiple of \<open>2 powi (- 51)\<close>: the other sum and the
  difference are then exact as well.
\<close>

lemma decodeWeight64_exact:
  assumes "w = of_int j / 2 ^ 51" "is_binary64 (w + 1)"
  shows "decodeWeight64 (Num w) = Num (decodeWeight w)"
proof -
  let ?r1 = "js_rem (w + 1) 2"
  let ?r2 = "js_rem (?r1 + 2) 2"
  have w1: "w + 1 = of_int (j + 2 ^ 51) / 2 ^ 51"
    using assms(1) by (simp add: field_simps)
  have r1: "?r1 + 2 = of_int (j + 2 ^ 51 - 2 ^ 52 * js_trunc ((w + 1) / 2) + 2 ^ 52) / 2 ^ 51"
    unfolding js_rem_grid51 [OF w1] by (simp add: field_simps)
  have b1: "\<bar>?r1 + 2\<bar> < 4" using js_rem_2_bounds [of "w + 1"] by linarith
  have e1: "round64 (?r1 + 2) = Num (?r1 + 2)"
    using is_binary64_grid51 [OF r1 b1] by (simp add: is_binary64_def)
  have r2: "?r2 - 1 = of_int (j + 2 ^ 51 - 2 ^ 52 * js_trunc ((w + 1) / 2) + 2 ^ 52
                 - 2 ^ 52 * js_trunc ((?r1 + 2) / 2) - 2 ^ 51) / 2 ^ 51"
    unfolding js_rem_grid51 [OF r1] by (simp add: field_simps)
  have "0 \<le> ?r2" "?r2 < 2"
    unfolding mod_pos_2 by (rule floor_rem_2_bounds)+
  then have b2: "\<bar>?r2 - 1\<bar> < 4" by linarith
  have e2: "round64 (?r2 - 1) = Num (?r2 - 1)"
    using is_binary64_grid51 [OF r2 b2] by (simp add: is_binary64_def)
  have e0: "round64 (w + 1) = Num (w + 1)"
    using assms(2) by (simp add: is_binary64_def)
  show ?thesis
    by (simp add: decodeWeight64_def sub64_def e0 e1 e2 decodeWeight_def)
qed

lemma is_binary64_int:
  assumes "\<bar>n\<bar> < 2 ^ 53"
  shows "is_binary64 (of_int n)"
proof -
  have "\<bar>real_of_int n\<bar> < 2 ^ 53"
    using assms by (metis of_int_abs of_int_less_iff of_int_numeral of_int_power)
  then have big: "\<bar>real_of_int n\<bar> < 2 ^ 1024"
    by (rule less_trans) simp
  show ?thesis
    unfolding is_binary64_def by (rule round64_grid [of _ n 0, OF _ assms _ big]) simp_all
qed

lemma decodeWeight_int: "decodeWeight (of_int n) = (if even n then 0 else 1)"
proof (cases "even n")
  case True
  then obtain m where "n = 2 * m" by (elim evenE)
  then have "\<lfloor>(real_of_int n + 1) / 2\<rfloor> = m" by (simp add: add_divide_distrib)
  then show ?thesis using True \<open>n = 2 * m\<close> by (simp add: decodeWeight_floor)
next
  case False
  then obtain m where "n = 2 * m + 1" by (elim oddE)
  then have "\<lfloor>(real_of_int n + 1) / 2\<rfloor> = m + 1" by (simp add: add_divide_distrib)
  then show ?thesis using False \<open>n = 2 * m + 1\<close> by (simp add: decodeWeight_floor)
qed

lemma decodeWeight64_int:
  assumes "\<bar>n + 1\<bar> < 2 ^ 53"
  shows "decodeWeight64 (Num (of_int n)) = Num (if even n then 0 else 1)"
proof -
  have "real_of_int n = of_int (n * 2 ^ 51) / 2 ^ 51" by simp
  moreover have "is_binary64 (real_of_int n + 1)"
    using is_binary64_int [OF assms] by simp
  ultimately have "decodeWeight64 (Num (of_int n)) = Num (decodeWeight (of_int n))"
    by (rule decodeWeight64_exact)
  then show ?thesis by (simp only: decodeWeight_int)
qed

text \<open>
  C1 (as amended). On binary64 numbers, \<open>decodeWeight64 w\<close> is
  \<open>abs (((w + 1) % 2 + 2) % 2 - 1)\<close> with every sum and difference rounded and \<open>%\<close> the
  remainder of the language, and it takes the values 1, 0 and 1 at 1, 0 and -1. For a
  weight \<open>w\<close> that is a multiple of \<open>2 powi (- 51)\<close> and whose sum \<open>w + 1\<close> is a binary64
  number, the result is the number that the formula gives in exact arithmetic; if
  \<open>w + 2 k + 1\<close> is a binary64 number as well, for an integer \<open>k\<close>, the results at \<open>w\<close> and
  at \<open>w + 2 k\<close> are the same. In particular, at an integer \<open>n\<close> with \<open>\<bar>n + 1\<bar> < 2 ^ 53\<close>
  the result is 0 when \<open>n\<close> is even and 1 when it is odd.
\<close>

theorem decodeWeight64_sawtooth:
  "decodeWeight64 a =
     abs64 (sub64 (rem64 (add64 (rem64 (add64 a (Num 1)) (Num 2)) (Num 2)) (Num 2)) (Num 1))
   \<and> decodeWeight64 (Num 1) = Num 1
   \<and> decodeWeight64 (Num 0) = Num 0
   \<and> decodeWeight64 (Num (- 1)) = Num 1
   \<and> (\<forall>j. is_binary64 (w + 1) \<and> w = of_int j / 2 ^ 51 \<longrightarrow>
         decodeWeight64 (Num w) = Num \<bar>js_rem (js_rem (w + 1) 2 + 2) 2 - 1\<bar>)
   \<and> (\<forall>j. is_binary64 (w + 1) \<and> is_binary64 (w + 2 * of_int k + 1) \<and> w = of_int j / 2 ^ 51 \<longrightarrow>
         decodeWeight64 (Num (w + 2 * of_int k)) = decodeWeight64 (Num w))
   \<and> (\<bar>n + 1\<bar> < 2 ^ 53 \<longrightarrow> decodeWeight64 (Num (of_int n)) = Num (if even n then 0 else 1))"
proof -
  have f: "decodeWeight64 a =
     abs64 (sub64 (rem64 (add64 (rem64 (add64 a (Num 1)) (Num 2)) (Num 2)) (Num 2)) (Num 1))"
    by (simp add: decodeWeight64_def)
  have v1: "decodeWeight64 (Num 1) = Num 1"
    using decodeWeight64_int [of 1] by simp
  have v0: "decodeWeight64 (Num 0) = Num 0"
    using decodeWeight64_int [of 0] by simp
  have vm: "decodeWeight64 (Num (- 1)) = Num 1"
    using decodeWeight64_int [of "- 1"] by simp
  have ex: "decodeWeight64 (Num w) = Num \<bar>js_rem (js_rem (w + 1) 2 + 2) 2 - 1\<bar>"
    if "is_binary64 (w + 1)" "w = of_int j / 2 ^ 51" for j
    using decodeWeight64_exact [OF that(2,1)] by (simp add: decodeWeight_def)
  have per: "decodeWeight64 (Num (w + 2 * of_int k)) = decodeWeight64 (Num w)"
    if "is_binary64 (w + 1)" "is_binary64 (w + 2 * of_int k + 1)" "w = of_int j / 2 ^ 51" for j
  proof -
    have "w + 2 * of_int k = of_int (j + 2 ^ 52 * k) / 2 ^ 51"
      using that(3) by (simp add: field_simps)
    from decodeWeight64_exact [OF this that(2)] decodeWeight64_exact [OF that(3,1)]
    show ?thesis by (simp add: decodeWeight_shift)
  qed
  have it: "\<bar>n + 1\<bar> < 2 ^ 53 \<longrightarrow> decodeWeight64 (Num (of_int n)) = Num (if even n then 0 else 1)"
    using decodeWeight64_int by blast
  from f v1 v0 vm ex per it show ?thesis by blast
qed

theorem decodeWeight64_sawtooth_witness:
  "is_binary64 (1 / 2 + 1) \<and> is_binary64 (1 / 2 + 2 * of_int 1 + 1)
   \<and> (1 / 2 :: real) = of_int (2 ^ 50) / 2 ^ 51
   \<and> decodeWeight64 (Num (1 / 2 + 2 * of_int 1)) = decodeWeight64 (Num (1 / 2))
   \<and> decodeWeight64 (Num (1 / 2)) = Num (1 / 2)
   \<and> \<bar>3 + 1 :: int\<bar> < 2 ^ 53
   \<and> decodeWeight64 (Num (of_int 3)) = Num 1"
proof -
  have h1: "is_binary64 (1 / 2 + 1)"
    by (rule is_binary64_grid51 [of _ "3 * 2 ^ 50"]) simp_all
  have h2: "is_binary64 (1 / 2 + 2 * of_int 1 + 1)"
    by (rule is_binary64_grid51 [of _ "7 * 2 ^ 50"]) simp_all
  have h3: "(1 / 2 :: real) = of_int (2 ^ 50) / 2 ^ 51" by simp
  have v: "\<bar>js_rem (js_rem (1 / 2 + 1) 2 + 2) 2 - 1\<bar> = 1 / 2"
    by (simp add: js_rem_def js_trunc_def)
  note t = decodeWeight64_sawtooth [of "Num (1 / 2)" "1 / 2" 1 3]
  from t h1 h3 have "decodeWeight64 (Num (1 / 2)) = Num \<bar>js_rem (js_rem (1 / 2 + 1) 2 + 2) 2 - 1\<bar>"
    by blast
  then have e: "decodeWeight64 (Num (1 / 2)) = Num (1 / 2)"
    by (simp only: v)
  from t h1 h2 h3 have p: "decodeWeight64 (Num (1 / 2 + 2 * of_int 1)) = decodeWeight64 (Num (1 / 2))"
    by blast
  have h4: "\<bar>3 + 1 :: int\<bar> < 2 ^ 53" by simp
  with t have "decodeWeight64 (Num (of_int 3)) = Num (if even (3::int) then 0 else 1)"
    by blast
  then have i: "decodeWeight64 (Num (of_int 3)) = Num 1" by simp
  from h1 h2 h3 p e h4 i show ?thesis by blast
qed

text \<open>
  The claim as stated fails: 0 and \<open>2 ^ 53\<close> differ by a multiple of 2 and decode to 0
  and 1, because \<open>2 ^ 53 + 1\<close> is rounded to \<open>2 ^ 53\<close>; and the binary64 number nearest to
  -0.5464261383972109 and the number 4 above it decode to two numbers that differ
  in the last place.
\<close>

theorem decodeWeight64_period_counterexample:
  "is_binary64 0 \<and> is_binary64 (0 + 2 * of_int (2 ^ 52))
   \<and> decodeWeight64 (Num 0) = Num 0
   \<and> decodeWeight64 (Num (0 + 2 * of_int (2 ^ 52))) = Num 1
   \<and> is_binary64 (- 1230442276635589 / 2 ^ 51)
   \<and> is_binary64 (- 1230442276635589 / 2 ^ 51 + 2 * of_int 2)
   \<and> decodeWeight64 (Num (- 1230442276635589 / 2 ^ 51)) = Num (1230442276635589 / 2 ^ 51)
   \<and> decodeWeight64 (Num (- 1230442276635589 / 2 ^ 51 + 2 * of_int 2)) =
       Num (1230442276635588 / 2 ^ 51)"
proof -
  have b0: "is_binary64 0"
    using is_binary64_int [of 0] by simp
  have b1: "is_binary64 (0 + 2 * of_int (2 ^ 52))"
    unfolding is_binary64_def by (subst round64_eval [of 1]) (simp_all add: round_even_def)
  have d0: "decodeWeight64 (Num 0) = Num 0"
    using decodeWeight64_int [of 0] by simp
  have r1: "round64 9007199254740993 = Num 9007199254740992"
    by (subst round64_eval [of 1]) (simp_all add: round_even_def)
  have r2: "round64 2 = Num 2"
    using is_binary64_int [of 2] by (simp add: is_binary64_def)
  have r3: "round64 (- 1) = Num (- 1)"
    using is_binary64_int [of "- 1"] by (simp add: is_binary64_def)
  have d1: "decodeWeight64 (Num (0 + 2 * of_int (2 ^ 52))) = Num 1"
    by (simp add: decodeWeight64_def sub64_def r1 r2 r3 js_rem_def js_trunc_def)
  have b2: "is_binary64 (- 1230442276635589 / 2 ^ 51)"
    by (rule is_binary64_grid51 [of _ "- 1230442276635589"]) simp_all
  have b3: "is_binary64 (- 1230442276635589 / 2 ^ 51 + 2 * of_int 2)"
    by (rule is_binary64_grid51 [of _ "- 1230442276635589 + 2 ^ 53"]) simp_all
  have b4: "is_binary64 (- 1230442276635589 / 2 ^ 51 + 1)"
    by (rule is_binary64_grid51 [of _ "- 1230442276635589 + 2 ^ 51"]) simp_all
  have "decodeWeight64 (Num (- 1230442276635589 / 2 ^ 51)) =
        Num (decodeWeight (- 1230442276635589 / 2 ^ 51))"
    by (rule decodeWeight64_exact [of _ "- 1230442276635589", OF _ b4]) simp
  then have d2: "decodeWeight64 (Num (- 1230442276635589 / 2 ^ 51)) =
        Num (1230442276635589 / 2 ^ 51)"
    by (simp add: decodeWeight_def js_rem_def js_trunc_def)
  define w4 :: real where "w4 = - 1230442276635589 / 2 ^ 51 + 2 * of_int 2"
  define x1 :: real where "x1 = 5014278395895326 / 2 ^ 50"
  define x2 :: real where "x2 = 510678768524830 / 2 ^ 50"
  define x3 :: real where "x3 = 510678768524830 / 2 ^ 50 + 2"
  define x5 :: real where "x5 = - 1230442276635588 / 2 ^ 51"
  have s1: "add64 (Num w4) (Num 1) = Num x1"
    by (simp add: w4_def x1_def, subst round64_eval [of "- 50"])
      (simp_all add: round_even_def)
  have s2: "rem64 (Num x1) (Num 2) = Num x2"
    by (simp add: x1_def x2_def js_rem_def js_trunc_def)
  have s3: "add64 (Num x2) (Num 2) = Num x3"
    by (simp add: x2_def x3_def, subst round64_eval [of "- 51"])
      (simp_all add: round_even_def)
  have s4: "rem64 (Num x3) (Num 2) = Num x2"
    by (simp add: x2_def x3_def js_rem_def js_trunc_def)
  have s5: "sub64 (Num x2) (Num 1) = Num x5"
    by (simp add: x2_def x5_def sub64_def, subst round64_eval [of "- 53"])
      (simp_all add: round_even_def)
  have s6: "abs64 (Num x5) = Num (1230442276635588 / 2 ^ 51)"
    by (simp add: x5_def)
  have "decodeWeight64 (Num w4) = Num (1230442276635588 / 2 ^ 51)"
    by (simp only: decodeWeight64_def Let_def s1 s2 s3 s4 s5 s6)
  then have d3: "decodeWeight64 (Num (- 1230442276635589 / 2 ^ 51 + 2 * of_int 2)) =
       Num (1230442276635588 / 2 ^ 51)"
    by (simp only: w4_def)
  from b0 b1 d0 d1 b2 b3 d2 d3 show ?thesis by blast
qed

subsection \<open>Evaluation helpers\<close>

lemma str_simps: "str [] = []" "str (c # cs) = of_nat (of_char c) # str cs"
  by (simp_all add: str_def)

lemma getBoneMatrix_one_bone: "getBoneMatrix threeRK one_bone 0 = scale2"
  by (simp add: getBoneMatrix_def one_bone_def array_at_def boneWorld_of_def threeRK_def
      multiply4_def identity4_def scale2_def upt_rec)

lemma skin_pairs_skinned_geometry:
  "filter (\<lambda>p. snd p > 0.0001) (skin_pairs (skinAttrs_of skinned_geometry) i) = [(0, 1)]"
  by (simp add: skin_pairs_def skinAttrs_of_def attributes_skin_def skinned_geometry_def
      plain_geometry_def bone0_attr_def upt_rec decodeWeight_floor)

subsection \<open>Bone matrices\<close>

text \<open>
  C3 (as amended). \<open>getBoneMatrix\<close> is a total function: no input makes it throw. It
  returns the freshly constructed matrix (the identity of the host library) when the
  index is negative, when it is at or past the bone count, when the bone or its
  bind-pose inverse is missing, and also when the bone has no world matrix (no
  \<open>matrixWorld\<close> and no result of \<open>getMatrixWorld\<close>); in every other case it returns the
  bone's world matrix multiplied by the bone's bind-pose inverse.
\<close>

theorem getBoneMatrix_total:
  "(i < 0 \<longrightarrow> getBoneMatrix rk sk i = Matrix4_new rk)
   \<and> ((case bones sk of Some bs \<Rightarrow> int (length bs) | None \<Rightarrow> 0) \<le> i
        \<longrightarrow> getBoneMatrix rk sk i = Matrix4_new rk)
   \<and> ((case bones sk of Some bs \<Rightarrow> array_at bs i | None \<Rightarrow> None) = None
        \<longrightarrow> getBoneMatrix rk sk i = Matrix4_new rk)
   \<and> ((case boneInverses sk of Some ivs \<Rightarrow> array_at ivs i | None \<Rightarrow> None) = None
        \<longrightarrow> getBoneMatrix rk sk i = Matrix4_new rk)
   \<and> (\<forall>bs b. bones sk = Some bs \<and> array_at bs i = Some b \<and> boneWorld_of b = None
        \<longrightarrow> getBoneMatrix rk sk i = Matrix4_new rk)
   \<and> (\<forall>bs ivs b binv w.
         bones sk = Some bs \<and> array_at bs i = Some b
         \<and> boneInverses sk = Some ivs \<and> array_at ivs i = Some binv
         \<and> boneWorld_of b = Some w
        \<longrightarrow> getBoneMatrix rk sk i = multiply rk w binv)"
  by (auto simp: getBoneMatrix_def Let_def array_at_def split: option.splits)

theorem getBoneMatrix_total_witness:
  "getBoneMatrix threeRK one_bone (- 1) = identity4
   \<and> getBoneMatrix threeRK one_bone 1 = identity4
   \<and> getBoneMatrix threeRK one_bone 0 = multiply4 scale2 identity4"
proof -
  have "getBoneMatrix threeRK one_bone (- 1) = identity4"
    using getBoneMatrix_total [of "- 1" threeRK one_bone] by (simp add: threeRK_def)
  moreover have "getBoneMatrix threeRK one_bone 1 = identity4"
    using getBoneMatrix_total [of 1 threeRK one_bone] by (simp add: threeRK_def one_bone_def)
  moreover have "getBoneMatrix threeRK one_bone 0 = multiply4 scale2 identity4"
    using getBoneMatrix_total [of 0 threeRK one_bone]
    by (simp add: threeRK_def one_bone_def array_at_def boneWorld_of_def)
  ultimately show ?thesis by simp
qed

text \<open>
  The claim as stated fails: bone 0 of \<open>bare_bone\<close> is present, so is its bind-pose
  inverse, and the index is in range, yet the result is the identity, because the
  bone has no world matrix to multiply.
\<close>

theorem getBoneMatrix_worldless_counterexample:
  "bones bare_bone = Some [Some \<lparr>bone_matrixWorld = None, getMatrixWorld = None\<rparr>]
   \<and> boneInverses bare_bone = Some [Some scale2]
   \<and> boneWorld_of \<lparr>bone_matrixWorld = None, getMatrixWorld = None\<rparr> = None
   \<and> getBoneMatrix threeRK bare_bone 0 = identity4
   \<and> identity4 \<noteq> scale2"
  by (simp add: bare_bone_def boneWorld_of_def getBoneMatrix_def array_at_def threeRK_def
      identity4_def scale2_def)

subsection \<open>Skinning a vertex bound to one bone\<close>

lemma skin_loop_fold:
  "skin_loop rk sk sv i attrs st =
     fold (\<lambda>p. skin_influence rk sk sv (fst p) (snd p)) (skin_pairs attrs i) st"
  by (induction attrs arbitrary: st) (simp_all add: skin_pairs_def Let_def)

lemma fold_skin_filter:
  "fold (\<lambda>p. skin_influence rk sk sv (fst p) (snd p)) ps st =
   fold (\<lambda>p. skin_influence rk sk sv (fst p) (snd p)) (filter (\<lambda>p. snd p > 0.0001) ps) st"
  by (induction ps arbitrary: st) (simp_all add: skin_influence_def)

lemma skin_loop_single:
  assumes "filter (\<lambda>p. snd p > 0.0001) (skin_pairs attrs i) = [(b, 1)]"
  shows "skin_loop rk sk sv i attrs (Vec3 0 0 0, 0) =
         (applyMatrix4 rk sv (getBoneMatrix rk sk b), 1)"
proof -
  let ?f = "\<lambda>p. skin_influence rk sk sv (fst p) (snd p)"
  have "skin_loop rk sk sv i attrs (Vec3 0 0 0, 0) = fold ?f (skin_pairs attrs i) (Vec3 0 0 0, 0)"
    by (rule skin_loop_fold)
  also have "\<dots> = fold ?f (filter (\<lambda>p. snd p > 0.0001) (skin_pairs attrs i)) (Vec3 0 0 0, 0)"
    by (rule fold_skin_filter)
  also have "\<dots> = fold ?f [(b, 1)] (Vec3 0 0 0, 0)"
    by (simp only: assms)
  finally show ?thesis
    by (simp add: skin_influence_def addScaledVector_def Let_def)
qed

text \<open>
  C2 (as amended). For a mesh with a geometry and a skeleton and a vertex whose skin
  attributes decode to exactly one weight above the threshold 0.0001, that weight
  being 1 on bone \<open>b\<close>: when the bind matrix is absent or the identity (up to 0.0001 in
  each element), the result is the position transformed by the skin matrix of bone
  \<open>b\<close>; when the bind matrix is present and not the identity, the result is the
  position transformed by the bind matrix, then by the skin matrix of bone \<open>b\<close>, then
  by the inverse bind matrix when the mesh has one.
\<close>

theorem skinVertex_single_bone:
  assumes "geometry mesh = Some g" and "skeleton mesh = Some sk"
    and "filter (\<lambda>p. snd p > 0.0001) (skin_pairs (skinAttrs_of g) i) = [(b, 1)]"
  shows "(isIdentityMatrix (bindMatrix mesh) \<longrightarrow>
            skinVertexWithPosition rk mesh i x y z =
              Some (applyMatrix4 rk (Vec3 x y z) (getBoneMatrix rk sk b)))
         \<and> (\<forall>bm. bindMatrix mesh = Some bm \<and> \<not> isIdentityMatrix (Some bm) \<longrightarrow>
               skinVertexWithPosition rk mesh i x y z =
                 Some (let v = applyMatrix4 rk (applyMatrix4 rk (Vec3 x y z) bm)
                                 (getBoneMatrix rk sk b)
                       in case bindMatrixInverse mesh of
                            Some bmi \<Rightarrow> applyMatrix4 rk v bmi
                          | None \<Rightarrow> v))"
proof -
  obtain a rest where sa: "skinAttrs_of g = a # rest"
    using assms(3) by (cases "skinAttrs_of g") (auto simp: skin_pairs_def)
  have loop: "skin_loop rk sk sv i (a # rest) (Vec3 0 0 0, 0) =
              (applyMatrix4 rk sv (getBoneMatrix rk sk b), 1)" for sv
    using skin_loop_single [OF assms(3)] sa by simp
  have div1: "divideScalar v 1 = v" for v
    by (simp add: divideScalar_def)
  have none: "isIdentityMatrix None"
    by (simp add: isIdentityMatrix_def)
  show ?thesis
  proof (cases "isIdentityMatrix (bindMatrix mesh)")
    case True
    then show ?thesis
      using none
      by (auto simp: skinVertexWithPosition_def assms(1,2) sa loop div1 Let_def
          simp del: skin_loop.simps split: option.splits)
  next
    case False
    then show ?thesis
      using none
      by (auto simp: skinVertexWithPosition_def assms(1,2) sa loop div1 Let_def
          simp del: skin_loop.simps split: option.splits)
  qed
qed

lemma shift_x_not_identity: "\<not> isIdentityMatrix (Some (shift_x 1))"
  by (simp add: isIdentityMatrix_def shift_x_def near_def)

theorem skinVertex_single_bone_witness:
  "filter (\<lambda>p. snd p > 0.0001) (skin_pairs (skinAttrs_of skinned_geometry) 0) = [(0, 1)]
   \<and> skinVertexWithPosition threeRK torso 0 1 0 0 = Some (Vec3 3 0 0)"
proof -
  have "skinVertexWithPosition threeRK torso 0 1 0 0 =
        Some (applyMatrix4_three
                (applyMatrix4_three (applyMatrix4_three (Vec3 1 0 0) (shift_x 1)) scale2)
                (shift_x (- 1)))"
    using skinVertex_single_bone [of torso skinned_geometry one_bone 0 0 threeRK 1 0 0]
      skin_pairs_skinned_geometry [of 0] shift_x_not_identity
    by (simp add: torso_def getBoneMatrix_one_bone) (simp add: threeRK_def)
  then have "skinVertexWithPosition threeRK torso 0 1 0 0 = Some (Vec3 3 0 0)"
    by (simp add: applyMatrix4_three_def shift_x_def scale2_def)
  with skin_pairs_skinned_geometry [of 0] show ?thesis by blast
qed

text \<open>
  The claim as stated fails: \<open>torso\<close> has one weight 1 on bone 0, whose skin matrix
  doubles lengths and so keeps the origin in place, but its bind matrix is not the
  identity and the origin is moved to \<open>(1, 0, 0)\<close>.
\<close>

theorem skinVertex_bind_counterexample:
  "geometry torso = Some skinned_geometry
   \<and> skeleton torso = Some one_bone
   \<and> filter (\<lambda>p. snd p > 0.0001) (skin_pairs (skinAttrs_of skinned_geometry) 0) = [(0, 1)]
   \<and> skinVertexWithPosition threeRK torso 0 0 0 0 = Some (Vec3 1 0 0)
   \<and> applyMatrix4 threeRK (Vec3 0 0 0) (getBoneMatrix threeRK one_bone 0) = Vec3 0 0 0"
proof -
  have "skinVertexWithPosition threeRK torso 0 0 0 0 = Some (Vec3 1 0 0)"
    apply (simp add: skinVertexWithPosition_def torso_def Let_def)
    apply (simp add: skinAttrs_of_def attributes_skin_def skinned_geometry_def
        plain_geometry_def upt_rec Let_def)
    apply (simp add: bone0_attr_def decodeWeight_floor skin_influence_def Let_def
        getBoneMatrix_one_bone)
    apply (simp add: threeRK_def applyMatrix4_three_def shift_x_def scale2_def
        addScaledVector_def divideScalar_def Let_def isIdentityMatrix_def near_def)
    done
  moreover have "applyMatrix4 threeRK (Vec3 0 0 0) (getBoneMatrix threeRK one_bone 0) = Vec3 0 0 0"
    by (simp add: getBoneMatrix_one_bone) (simp add: threeRK_def applyMatrix4_three_def scale2_def)
  moreover have "geometry torso = Some skinned_geometry" "skeleton torso = Some one_bone"
    by (simp_all add: torso_def)
  ultimately show ?thesis
    using skin_pairs_skinned_geometry [of 0] by blast
qed

subsection \<open>Routing of meshes\<close>

lemma routed_Nil: "routed [] acc = acc"
  by (simp add: routed_def)

lemma routed_append: "routed (xs @ ys) acc = routed ys (routed xs acc)"
  by (simp add: routed_def)

lemma routed_single:
  "routed [(s, m)] acc =
     (if (isMesh m \<or> isSkinnedMesh m) \<and> shouldIncludeMesh m (Some s) then
        (if isBaseMesh (Some s) (name m)
         then acc\<lparr>baseMeshes := baseMeshes acc @ [m]\<rparr>
         else acc\<lparr>characterMeshes := characterMeshes acc @ [m]\<rparr>)
      else acc)"
  by (simp add: routed_def accepted_def to_base_def)

lemma collectRecursive_routed:
  "collectRecursive m (Some s) acc = routed (map (Pair s) (visited m)) acc"
  "collect_children cs (Some s) acc = routed (map (Pair s) (visited_children cs)) acc"
proof (induction m "Some s" acc and cs "Some s" acc rule: collectRecursive_collect_children.induct)
  case (1 im ism vis nm g sk mw bm bmi mti ch acc)
  let ?m = "Mesh im ism vis nm g sk mw bm bmi mti ch"
  have split: "map (Pair s) (visited ?m) =
      [(s, ?m)] @ map (Pair s) (case ch of None \<Rightarrow> [] | Some cs \<Rightarrow> visited_children cs)"
    by simp
  show ?case
  proof (cases ch)
    case None
    then show ?thesis
      unfolding split routed_append routed_single by (simp add: routed_Nil Let_def)
  next
    case (Some cs)
    then show ?thesis
      unfolding split routed_append routed_single using 1 by (simp add: Let_def)
  qed
next
  case (2 acc)
  then show ?case by (simp add: routed_Nil)
next
  case (3 child rest acc)
  then show ?case by (simp add: routed_append routed_Nil)
qed

lemma collect_slot_routed: "collect_slot entry acc = routed (slot_visited entry) acc"
  by (cases entry)
    (simp add: collect_slot_def slot_visited_def collectRecursive_routed routed_Nil
      split: option.splits)

lemma fold_collect_slot:
  "fold collect_slot entries acc = routed (concat (map slot_visited entries)) acc"
  by (induction entries arbitrary: acc)
    (simp_all add: routed_Nil routed_append collect_slot_routed)

lemma collectMeshes_routed:
  "collectMeshes ck = routed (scene_visited ck) \<lparr>characterMeshes = [], baseMeshes = []\<rparr>"
  by (simp add: collectMeshes_def scene_visited_def fold_collect_slot routed_Nil Let_def
      split: option.splits)

lemma collectMeshes_scenario:
  "collectMeshes scenario = \<lparr>characterMeshes = [torso], baseMeshes = [pedestal]\<rparr>"
  by (simp add: collectMeshes_def scenario_def collect_slot_def torso_def pedestal_def
      shouldIncludeMesh_def isBaseMesh_def excluded_word_def plain_geometry_def
      skinned_geometry_def tri_attr_def startsWith_def toLowerCase_def or_empty_def
      str_simps Let_def)

text \<open>
  The tests of the source on lower-cased names are the matching without regard to
  case of the specification, for the words that the source looks for.
\<close>

lemma lower_letter:
  fixes c l :: "16 word"
  assumes "97 \<le> l" "l \<le> 122"
  shows "(if 65 \<le> c \<and> c \<le> 90 then c + 32 else c) = l
         \<longleftrightarrow> c = l \<or> (97 \<le> l \<and> l \<le> 122 \<and> c = l - 32)"
  using assms by (auto; unat_arith)


lemma toLowerCase_spells:
  assumes "list_all (\<lambda>l. 97 \<le> l \<and> l \<le> 122) w"
  shows "toLowerCase p = w \<longleftrightarrow> spells p w"
  using assms
proof (induction p arbitrary: w)
  case Nil
  then show ?case by (auto simp: toLowerCase_def spells_def)
next
  case (Cons c p)
  show ?case
  proof (cases w)
    case Nil
    then show ?thesis by (simp add: toLowerCase_def spells_def)
  next
    case (Cons l w')
    with Cons.prems have l: "97 \<le> l" "l \<le> 122" and w': "list_all (\<lambda>l. 97 \<le> l \<and> l \<le> 122) w'"
      by simp_all
    from Cons.IH [OF w'] have ih: "map (\<lambda>c. if 65 \<le> c \<and> c \<le> 90 then c + 32 else c) p = w' \<longleftrightarrow>
        list_all2 (\<lambda>c l. c = l \<or> (97 \<le> l \<and> l \<le> 122 \<and> c = l - 32)) p w'"
      by (simp add: toLowerCase_def spells_def)
    show ?thesis
      unfolding toLowerCase_def spells_def Cons
      using lower_letter [OF l, of c] ih by simp
  qed
qed

lemma spells_length: "spells p w \<Longrightarrow> length p = length w"
  by (simp add: spells_def list_all2_lengthD)

lemma toLowerCase_append: "toLowerCase (a @ b) = toLowerCase a @ toLowerCase b"
  by (simp add: toLowerCase_def)

lemma toLowerCase_eq_append:
  "toLowerCase s = a @ b \<Longrightarrow> \<exists>u v. s = u @ v \<and> toLowerCase u = a \<and> toLowerCase v = b"
  by (auto simp: toLowerCase_def map_eq_append_conv)

lemma startsWith_iff: "startsWith s p \<longleftrightarrow> (\<exists>r. s = p @ r)"
proof
  assume "startsWith s p"
  then have "s = p @ drop (length p) s"
    by (metis append_take_drop_id startsWith_def)
  then show "\<exists>r. s = p @ r" ..
next
  assume "\<exists>r. s = p @ r"
  then show "startsWith s p" by (auto simp: startsWith_def)
qed

lemma includes_str_iff: "includes_str xs p \<longleftrightarrow> (\<exists>a r. xs = a @ p @ r)"
proof (induction xs)
  case Nil
  then show ?case by auto
next
  case (Cons c cs)
  show ?case
  proof
    assume "includes_str (c # cs) p"
    then consider "startsWith (c # cs) p" | "includes_str cs p" by auto
    then show "\<exists>a r. c # cs = a @ p @ r"
    proof cases
      case 1
      then obtain r where "c # cs = p @ r" unfolding startsWith_iff ..
      then have "c # cs = [] @ p @ r" by simp
      then show ?thesis by blast
    next
      case 2
      then obtain a r where "cs = a @ p @ r" using Cons by blast
      then have "c # cs = (c # a) @ p @ r" by simp
      then show ?thesis by blast
    qed
  next
    assume "\<exists>a r. c # cs = a @ p @ r"
    then obtain a r where e: "c # cs = a @ p @ r" by blast
    show "includes_str (c # cs) p"
    proof (cases a)
      case Nil
      then have "startsWith (c # cs) p" using e unfolding startsWith_iff by auto
      then show ?thesis by simp
    next
      case (Cons x a')
      then have "cs = a' @ p @ r" using e by simp
      then have "includes_str cs p" using Cons.IH by blast
      then show ?thesis by simp
    qed
  qed
qed

lemma startsWith_ci:
  assumes "list_all (\<lambda>l. 97 \<le> l \<and> l \<le> 122) (str w)"
  shows "startsWith (toLowerCase s) (str w) \<longleftrightarrow> starts_with_ci s w"
proof
  assume "startsWith (toLowerCase s) (str w)"
  then obtain r where "toLowerCase s = str w @ r" unfolding startsWith_iff ..
  then obtain p r' where "s = p @ r'" "toLowerCase p = str w"
    using toLowerCase_eq_append by blast
  then show "starts_with_ci s w"
    unfolding starts_with_ci_def using toLowerCase_spells [OF assms] by blast
next
  assume "starts_with_ci s w"
  then obtain p r where "s = p @ r" "spells p (str w)"
    unfolding starts_with_ci_def by blast
  then have "toLowerCase s = str w @ toLowerCase r"
    using toLowerCase_spells [OF assms, of p] by (simp add: toLowerCase_append)
  then show "startsWith (toLowerCase s) (str w)" unfolding startsWith_iff ..
qed

lemma includes_ci:
  assumes "list_all (\<lambda>l. 97 \<le> l \<and> l \<le> 122) (str w)"
  shows "includes_str (toLowerCase s) (str w) \<longleftrightarrow> contains_ci s w"
proof
  assume "includes_str (toLowerCase s) (str w)"
  then obtain a r where "toLowerCase s = a @ str w @ r" unfolding includes_str_iff by blast
  then obtain a' vs where s1: "s = a' @ vs" and v: "toLowerCase vs = str w @ r"
    using toLowerCase_eq_append by blast
  from v obtain p r' where s2: "vs = p @ r'" and "toLowerCase p = str w"
    using toLowerCase_eq_append by blast
  with s1 have "s = a' @ p @ r'" "toLowerCase p = str w" by simp_all
  then show "contains_ci s w"
    unfolding contains_ci_def using toLowerCase_spells [OF assms] by blast
next
  assume "contains_ci s w"
  then obtain a p r where "s = a @ p @ r" "spells p (str w)"
    unfolding contains_ci_def by blast
  then have "toLowerCase s = toLowerCase a @ str w @ toLowerCase r"
    using toLowerCase_spells [OF assms, of p] by (simp add: toLowerCase_append)
  then show "includes_str (toLowerCase s) (str w)" unfolding includes_str_iff by blast
qed

lemma lower_words:
  "list_all (\<lambda>l. 97 \<le> l \<and> l \<le> 122) (str ''base'')"
  "list_all (\<lambda>l. 97 \<le> l \<and> l \<le> 122) (str ''pedestal'')"
  "list_all (\<lambda>l. 97 \<le> l \<and> l \<le> 122) (str ''ground'')"
  "list_all (\<lambda>l. 97 \<le> l \<and> l \<le> 122) (str ''floor'')"
  "list_all (\<lambda>l. 97 \<le> l \<and> l \<le> 122) (str ''plane'')"
  "list_all (\<lambda>l. 97 \<le> l \<and> l \<le> 122) (str ''shadow'')"
  "list_all (\<lambda>l. 97 \<le> l \<and> l \<le> 122) (str ''reflector'')"
  by (simp_all add: str_simps)

lemma or_empty_name: "or_empty (name m) = name_of m"
  by (simp add: or_empty_def name_of_def)

lemma to_base_rule: "to_base (slot, m) \<longleftrightarrow> base_rule slot m"
  by (simp add: to_base_def isBaseMesh_def base_rule_def or_empty_name Let_def
      startsWith_ci [OF lower_words(1)] includes_ci [OF lower_words(2)])
    (simp add: or_empty_def)

lemma excluded_word_ci:
  "excluded_word (toLowerCase s) \<longleftrightarrow>
     list_ex (contains_ci s) [''ground'', ''floor'', ''plane'', ''shadow'', ''reflector'']"
  by (simp add: excluded_word_def includes_ci [OF lower_words(3)] includes_ci [OF lower_words(4)]
      includes_ci [OF lower_words(5)] includes_ci [OF lower_words(6)]
      includes_ci [OF lower_words(7)])

lemma accepted_qualifies: "accepted (slot, m) \<longleftrightarrow> qualifies slot m"
proof -
  have w: "list_ex (\<lambda>w. contains_ci (name_of m) w \<or> contains_ci slot w)
             [''ground'', ''floor'', ''plane'', ''shadow'', ''reflector''] \<longleftrightarrow>
           excluded_word (toLowerCase (name_of m)) \<or> excluded_word (toLowerCase slot)"
    unfolding excluded_word_ci by auto
  have p: "has_prefix slot (str ''_'') \<longleftrightarrow> startsWith slot (str ''_'')"
    by (simp add: has_prefix_def startsWith_iff)
  show ?thesis
    unfolding accepted_def qualifies_def w p
    by (auto simp: shouldIncludeMesh_def sentinel_def name_of_def or_empty_def
        split: option.splits)
qed

lemma visited_marked:
  "map snd (filter (\<lambda>x. \<not> fst x) (marked h m)) = (if h then [] else visited m)"
  "map snd (filter (\<lambda>x. \<not> fst x) (marked_children h cs)) = (if h then [] else visited_children cs)"
proof (induction h m and h cs rule: marked_marked_children.induct)
  case (1 h im ism vis nm g sk mw bm bmi mti ch)
  then show ?case by (cases ch; cases h; simp)
next
  case (2 h)
  then show ?case by simp
next
  case (3 h child rest)
  then show ?case by (simp add: sentinel_def)
qed


lemma routed_filter:
  "map snd (filter (\<lambda>sm. accepted sm \<and> Q (fst sm) (snd sm))
              (map (Pair sl) (map snd (filter (\<lambda>x. \<not> fst x) xs)))) =
   map (\<lambda>x. snd (snd x))
     (filter (\<lambda>x. qualifies (fst x) (snd (snd x)) \<and> \<not> fst (snd x) \<and> Q (fst x) (snd (snd x)))
        (map (Pair sl) xs))"
  by (induction xs) (auto simp: accepted_qualifies)

lemma underscore_slot:
  "startsWith sl (str ''_'') \<Longrightarrow>
   filter (\<lambda>x. qualifies (fst x) (snd (snd x)) \<and> \<not> fst (snd x) \<and> Q (fst x) (snd (snd x)))
     (map (Pair sl) xs) = []"
  by (induction xs) (auto simp: qualifies_def has_prefix_def startsWith_iff)

lemma slot_descendants:
  "map snd (filter (\<lambda>sm. accepted sm \<and> Q (fst sm) (snd sm)) (slot_visited entry)) =
   map (\<lambda>x. snd (snd x))
     (filter (\<lambda>x. qualifies (fst x) (snd (snd x)) \<and> \<not> fst (snd x) \<and> Q (fst x) (snd (snd x)))
        (case snd entry of None \<Rightarrow> [] | Some mesh \<Rightarrow> map (Pair (fst entry)) (marked False mesh)))"
proof (cases "snd entry")
  case None
  then show ?thesis by (simp add: slot_visited_def)
next
  case (Some mesh)
  show ?thesis
  proof (cases "startsWith (fst entry) (str ''_'')")
    case True
    then show ?thesis by (simp add: slot_visited_def Some underscore_slot)
  next
    case False
    have v: "visited mesh = map snd (filter (\<lambda>x. \<not> fst x) (marked False mesh))"
      by (simp add: visited_marked(1))
    show ?thesis
      unfolding slot_visited_def Some option.case using False
      by (simp only: v routed_filter if_False)
  qed
qed

lemma scene_descendants_filter:
  "map snd (filter (\<lambda>sm. accepted sm \<and> Q (fst sm) (snd sm)) (scene_visited ck)) =
   map (\<lambda>x. snd (snd x))
     (filter (\<lambda>x. qualifies (fst x) (snd (snd x)) \<and> \<not> fst (snd x) \<and> Q (fst x) (snd (snd x)))
        (scene_descendants ck))"
proof -
  have "map snd (filter (\<lambda>sm. accepted sm \<and> Q (fst sm) (snd sm)) (concat (map slot_visited entries))) =
     map (\<lambda>x. snd (snd x))
       (filter (\<lambda>x. qualifies (fst x) (snd (snd x)) \<and> \<not> fst (snd x) \<and> Q (fst x) (snd (snd x)))
          (concat (map (\<lambda>entry. case snd entry of
                                  None \<Rightarrow> []
                                | Some mesh \<Rightarrow> map (Pair (fst entry)) (marked False mesh))
                     entries)))" for entries
    by (induction entries) (simp_all add: slot_descendants)
  then show ?thesis
    by (simp add: scene_visited_def scene_descendants_def split: option.splits)
qed

lemma collectMeshes_stone:
  "collectMeshes \<lparr>activeDisplay = Some \<lparr>meshes = Some [(str ''body'', Some stone)]\<rparr>\<rparr> =
     \<lparr>characterMeshes = [], baseMeshes = [stone]\<rparr>"
  by (simp add: collectMeshes_def collect_slot_def stone_def
      shouldIncludeMesh_def isBaseMesh_def excluded_word_def plain_geometry_def
      tri_attr_def startsWith_def toLowerCase_def or_empty_def str_simps Let_def)

text \<open>
  C9 (as amended). Take every node of every slot of the scene, in depth-first order.
  The base meshes that \<open>collectMeshes\<close> returns are, in this order, the nodes that qualify
  for inclusion, that neither are nor lie below a child named "facePads" or
  "_debugPass", and whose slot name or own name starts with "base" or contains
  "pedestal", without regard to case; the character meshes are the other qualifying
  nodes that neither are nor lie below such a child. A qualifying node below such a
  child is in neither sequence. In the scene with the visible mesh "Pedestal" under
  the slot "base_01" and the visible skinned mesh "Torso" under the slot "body", the
  base meshes are the pedestal and the character meshes are the torso; a mesh
  "Stone_PEDESTAL" under the slot "body" is a base mesh.
\<close>

theorem collectMeshes_routing:
  "baseMeshes (collectMeshes ck) =
     map (\<lambda>(slot, hidden, m). m)
       (filter (\<lambda>(slot, hidden, m). qualifies slot m \<and> \<not> hidden \<and> base_rule slot m)
          (scene_descendants ck))
   \<and> characterMeshes (collectMeshes ck) =
     map (\<lambda>(slot, hidden, m). m)
       (filter (\<lambda>(slot, hidden, m). qualifies slot m \<and> \<not> hidden \<and> \<not> base_rule slot m)
          (scene_descendants ck))
   \<and> scene_descendants scenario = [(str ''base_01'', False, pedestal), (str ''body'', False, torso)]
   \<and> baseMeshes (collectMeshes scenario) = [pedestal]
   \<and> characterMeshes (collectMeshes scenario) = [torso]
   \<and> baseMeshes (collectMeshes \<lparr>activeDisplay = Some \<lparr>meshes = Some [(str ''body'', Some stone)]\<rparr>\<rparr>) =
       [stone]"
proof -
  have b: "baseMeshes (collectMeshes ck) =
      map snd (filter (\<lambda>sm. accepted sm \<and> base_rule (fst sm) (snd sm)) (scene_visited ck))"
    by (simp add: collectMeshes_routed routed_def to_base_rule [symmetric])
  have c: "characterMeshes (collectMeshes ck) =
      map snd (filter (\<lambda>sm. accepted sm \<and> \<not> base_rule (fst sm) (snd sm)) (scene_visited ck))"
    by (simp add: collectMeshes_routed routed_def to_base_rule [symmetric])
  have d: "scene_descendants scenario =
      [(str ''base_01'', False, pedestal), (str ''body'', False, torso)]"
    by (simp add: scene_descendants_def scenario_def pedestal_def torso_def)
  show ?thesis
    unfolding b c d
    by (simp add: split_def collectMeshes_scenario collectMeshes_stone
        scene_descendants_filter [of base_rule ck]
        scene_descendants_filter [of "\<lambda>s m. \<not> base_rule s m" ck])
qed

text \<open>
  The claim as stated fails: the mesh "Eye" qualifies for inclusion and is a node of
  the slot "body", but it lies below the group "facePads", which the traversal does
  not enter, and it is in neither sequence.
\<close>

theorem collectMeshes_hidden_counterexample:
  "qualifies (str ''body'') eye
   \<and> scene_descendants hidden_scene =
       [(str ''body'', False, head), (str ''body'', True, face_pads), (str ''body'', True, eye)]
   \<and> collectMeshes hidden_scene = \<lparr>characterMeshes = [], baseMeshes = []\<rparr>"
proof -
  have "accepted (str ''body'', eye)"
    by (simp add: accepted_def eye_def shouldIncludeMesh_def excluded_word_def plain_geometry_def
        tri_attr_def startsWith_def toLowerCase_def or_empty_def str_simps)
  then have q: "qualifies (str ''body'') eye" by (simp only: accepted_qualifies)
  have d: "scene_descendants hidden_scene =
       [(str ''body'', False, head), (str ''body'', True, face_pads), (str ''body'', True, eye)]"
    by (simp add: scene_descendants_def hidden_scene_def head_def face_pads_def eye_def sentinel_def)
  have c: "collectMeshes hidden_scene = \<lparr>characterMeshes = [], baseMeshes = []\<rparr>"
    by (simp add: collectMeshes_def hidden_scene_def collect_slot_def head_def face_pads_def
        eye_def startsWith_def str_simps shouldIncludeMesh_def)
  from q d c show ?thesis by blast
qed

subsection \<open>Assembling triangles\<close>

lemma excluded_iff:
  "excluded (a, b, c) \<longleftrightarrow> \<not> isValidVertex a \<or> \<not> isValidVertex b \<or> \<not> isValidVertex c"
proof -
  have u: "abs_below c 100 \<longleftrightarrow> \<not> unusable c" for c
    by (auto simp: abs_below_def to_number_def less64_def unusable_def out_of_bound_def
        not_a_number_def split: option.splits number.splits)
  have v: "isValidVertex (x, y, z) \<longleftrightarrow> \<not> unusable x \<and> \<not> unusable y \<and> \<not> unusable z" for x y z
    by (simp add: isValidVertex_def u)
  obtain a1 a2 a3 b1 b2 b3 c1 c2 c3 where
    "a = (a1, a2, a3)" "b = (b1, b2, b3)" "c = (c1, c2, c3)"
    by (metis prod_cases3)
  then show ?thesis
    by (auto simp: excluded_def coords_def v)
qed

lemma assembled_Nil: "assembled [] st = st"
  by (simp add: assembled_def)

lemma assembled_append: "assembled (xs @ ys) st = assembled ys (assembled xs st)"
  by (simp add: assembled_def)

lemma addTriangle_assembled:
  "addTriangle ps (i0, i1, i2) st =
     assembled [(getVertex ps i0, getVertex ps i1, getVertex ps i2)] st"
  by (simp add: addTriangle_def assembled_def excluded_iff kept_def Let_def)

lemma indexed_loop_fold:
  "indexed_loop ps ixs (3 * k) st =
     assembled (map (\<lambda>k. (getVertex ps (indices_at ixs (3 * k)),
                          getVertex ps (indices_at ixs (3 * k + 1)),
                          getVertex ps (indices_at ixs (3 * k + 2))))
                 [k..<(length ixs + 2) div 3]) st"
proof (induction "(length ixs + 2) div 3 - k" arbitrary: k st)
  case 0
  then have "\<not> 3 * k < length ixs" by linarith
  moreover have "[k..<(length ixs + 2) div 3] = []" using 0 by simp
  ultimately show ?case
    by (subst indexed_loop.simps) (simp add: assembled_Nil)
next
  case (Suc n)
  then have lt: "3 * k < length ixs" and k: "k < (length ixs + 2) div 3" by linarith+
  have step: "n = (length ixs + 2) div 3 - Suc k" using Suc(2) by linarith
  have "indexed_loop ps ixs (3 * k) st =
        indexed_loop ps ixs (3 * Suc k)
          (addTriangle ps (indices_at ixs (3 * k), indices_at ixs (3 * k + 1), indices_at ixs (3 * k + 2)) st)"
    using lt by (subst indexed_loop.simps) (simp add: add.commute)
  also have "\<dots> = assembled (map (\<lambda>k. (getVertex ps (indices_at ixs (3 * k)),
                          getVertex ps (indices_at ixs (3 * k + 1)),
                          getVertex ps (indices_at ixs (3 * k + 2))))
                 [Suc k..<(length ixs + 2) div 3])
          (addTriangle ps (indices_at ixs (3 * k), indices_at ixs (3 * k + 1), indices_at ixs (3 * k + 2)) st)"
    by (rule Suc(1) [OF step])
  finally show ?case
    using k by (simp add: upt_conv_Cons addTriangle_assembled assembled_append [symmetric] del: upt_Suc)
qed

lemma unindexed_loop_fold:
  "unindexed_loop ps (3 * k) st =
     assembled (map (\<lambda>k. (getVertex ps (Some (int (3 * k))),
                          getVertex ps (Some (int (3 * k) + 1)),
                          getVertex ps (Some (int (3 * k) + 2))))
                 [k..<(length ps + 8) div 9]) st"
proof (induction "(length ps + 8) div 9 - k" arbitrary: k st)
  case 0
  then have "\<not> 3 * (3 * k) < length ps" by linarith
  moreover have "[k..<(length ps + 8) div 9] = []" using 0 by simp
  ultimately show ?case
    by (subst unindexed_loop.simps) (simp add: assembled_Nil)
next
  case (Suc n)
  then have lt: "3 * (3 * k) < length ps" and k: "k < (length ps + 8) div 9" by linarith+
  have step: "n = (length ps + 8) div 9 - Suc k" using Suc(2) by linarith
  have "unindexed_loop ps (3 * k) st =
        unindexed_loop ps (3 * Suc k)
          (addTriangle ps (Some (int (3 * k)), Some (int (3 * k) + 1), Some (int (3 * k) + 2)) st)"
    using lt by (subst unindexed_loop.simps) (simp add: add.commute)
  also have "\<dots> = assembled (map (\<lambda>k. (getVertex ps (Some (int (3 * k))),
                          getVertex ps (Some (int (3 * k) + 1)),
                          getVertex ps (Some (int (3 * k) + 2))))
                 [Suc k..<(length ps + 8) div 9])
          (addTriangle ps (Some (int (3 * k)), Some (int (3 * k) + 1), Some (int (3 * k) + 2)) st)"
    by (rule Suc(1) [OF step])
  finally show ?case
    using k by (simp add: upt_conv_Cons addTriangle_assembled assembled_append [symmetric] del: upt_Suc)
qed

lemma add_mesh_triangles_assembled: "add_mesh_triangles e st = assembled (candidates e) st"
  using indexed_loop_fold [of "positions e" _ 0 st] unindexed_loop_fold [of "positions e" 0 st]
  by (simp add: add_mesh_triangles_def candidates_def candidate_indices_def comp_def
      split: option.splits)

lemma fold_add_mesh_triangles:
  "fold add_mesh_triangles es st = assembled (concat (map candidates es)) st"
  by (induction es arbitrary: st)
    (simp_all add: assembled_Nil assembled_append add_mesh_triangles_assembled)

lemma collect_loop_assembled:
  "collect_loop rk ms st =
     map_option (\<lambda>es. assembled (concat (map candidates es)) st) (extract_all rk ms)"
proof (induction ms arbitrary: st)
  case Nil
  then show ?case by (simp add: assembled_Nil)
next
  case (Cons m ms)
  then show ?case
    by (simp add: add_mesh_triangles_assembled assembled_append option.map_comp comp_def
        split: option.splits)
qed

lemma extract_loop_total:
  "(\<And>i. \<exists>v. f i = Some v) \<Longrightarrow> \<exists>ps'. extract_loop f is ps = Some ps'"
proof (induction "is" arbitrary: ps)
  case Nil
  then show ?case by simp
next
  case (Cons i "is")
  from Cons.prems obtain v where "f i = Some v" by blast
  then show ?case using Cons by simp
qed

lemma skinVertexWithPosition_total:
  "geometry mesh = Some g \<Longrightarrow> \<exists>v. skinVertexWithPosition rk mesh i x y z = Some v"
  by (simp add: skinVertexWithPosition_def Let_def split: list.splits option.splits)

lemma extract_vertex_total:
  "geometry mesh = Some g \<Longrightarrow> \<exists>v. extract_vertex rk mesh g p i = Some v"
  using skinVertexWithPosition_total [of mesh g]
  by (simp add: extract_vertex_def Let_def split: prod.splits)

lemma extractMeshGeometry_total:
  "has_positions m \<Longrightarrow> \<exists>e. extractMeshGeometry rk m = Some e"
proof -
  assume "has_positions m"
  then obtain g p where g: "geometry m = Some g" and p: "position g = Some p"
    by (auto simp: has_positions_def split: option.splits)
  from extract_loop_total [of "extract_vertex rk m g p" "[0..<count p]" "[]"]
    extract_vertex_total [OF g]
  obtain ps where "extract_loop (extract_vertex rk m g p) [0..<count p] [] = Some ps"
    by blast
  then show ?thesis by (simp add: extractMeshGeometry_def g p)
qed

lemma extract_all_total: "list_all has_positions ms \<Longrightarrow> \<exists>es. extract_all rk ms = Some es"
proof (induction ms)
  case Nil
  then show ?case by simp
next
  case (Cons m ms)
  then obtain e es where "extractMeshGeometry rk m = Some e" "extract_all rk ms = Some es"
    using extractMeshGeometry_total [of m rk] by auto
  then show ?case by simp
qed

lemma apply_identity: "applyMatrix4_three v identity4 = v"
  by (cases v) (simp add: applyMatrix4_three_def identity4_def)

lemma extract_quad:
  "extractMeshGeometry threeRK quad =
     Some \<lparr>positions = [Num 0, Num 0, Num 0, Num 1, Num 0, Num 0, Num 2, Num 0, Num 0,
                         Num 3, Num 0, Num 0], indices = None\<rparr>"
  by (simp add: extractMeshGeometry_def quad_def plain_geometry_def quad_attr_def upt_rec
      extract_vertex_def threeRK_def apply_identity Let_def)

lemma candidates_quad:
  "candidates \<lparr>positions = [Num 0, Num 0, Num 0, Num 1, Num 0, Num 0, Num 2, Num 0, Num 0,
                             Num 3, Num 0, Num 0], indices = None\<rparr> =
     [((Some (Num 0), Some (Num 0), Some (Num 0)), (Some (Num 1), Some (Num 0), Some (Num 0)),
       (Some (Num 2), Some (Num 0), Some (Num 0))),
      ((Some (Num 3), Some (Num 0), Some (Num 0)), (None, None, None), (None, None, None))]"
  by (simp add: candidates_def candidate_indices_def upt_rec getVertex_def positions_at_def)

lemma candidates_nan_corner:
  "candidates nan_corner =
     [((Some NaN, Some (Num 0), Some (Num 0)), (Some (Num 1), Some (Num 0), Some (Num 0)),
       (Some (Num 0), Some (Num 1), Some (Num 0)))]"
  by (simp add: candidates_def candidate_indices_def nan_corner_def upt_rec getVertex_def
      positions_at_def)

lemma unusable_simps:
  "unusable None" "unusable (Some NaN)" "unusable (Some (Num v)) \<longleftrightarrow> 100 \<le> \<bar>v\<bar>"
  by (simp_all add: unusable_def out_of_bound_def not_a_number_def)

text \<open>
  C4 (as amended). The triangle assembler goes through the candidate triangles of
  every extracted mesh in order, whatever numbers the position buffers hold. A
  candidate is excluded if and only if at least one of the nine coordinates of its
  vertices has absolute value at least 100 or is not a number: it is missing, because
  the vertex index lies outside the position buffer, or it is NaN. The candidates
  that are not excluded are returned in order, and the count of skipped triangles is
  the number of excluded candidates, so each of them counts exactly once.
  \<open>collectTriangles\<close> assembles the meshes that the pose resolver has extracted, and on
  meshes that have a geometry with a position attribute the call does not throw.
\<close>

theorem collectTriangles_filter:
  "fold add_mesh_triangles es ([], 0) =
     (map kept (filter (\<lambda>c. \<not> excluded c) (concat (map candidates es))),
      length (filter excluded (concat (map candidates es))))
   \<and> collectTriangles rk ms =
     map_option (\<lambda>es. (map kept (filter (\<lambda>c. \<not> excluded c) (concat (map candidates es))),
                       length (filter excluded (concat (map candidates es)))))
       (extract_all rk ms)
   \<and> (list_all has_positions ms \<longrightarrow> collectTriangles rk ms \<noteq> None)"
proof -
  have f: "fold add_mesh_triangles es ([], 0) =
     (map kept (filter (\<lambda>c. \<not> excluded c) (concat (map candidates es))),
      length (filter excluded (concat (map candidates es))))"
    by (simp add: fold_add_mesh_triangles assembled_def)
  have eq: "collectTriangles rk ms =
     map_option (\<lambda>es. (map kept (filter (\<lambda>c. \<not> excluded c) (concat (map candidates es))),
                       length (filter excluded (concat (map candidates es)))))
       (extract_all rk ms)"
    by (simp add: collectTriangles_def collect_loop_assembled assembled_def)
  moreover have "list_all has_positions ms \<longrightarrow> collectTriangles rk ms \<noteq> None"
    using extract_all_total [of ms rk] unfolding eq by auto
  ultimately show ?thesis using f by blast
qed

theorem collectTriangles_filter_witness:
  "list_all has_positions [quad]
   \<and> collectTriangles threeRK [quad] \<noteq> None
   \<and> collectTriangles threeRK [quad] =
       Some ([Triangle (Vertex 0 0 0) (Vertex 1 0 0) (Vertex 2 0 0)], 1)
   \<and> fold add_mesh_triangles [nan_corner] ([], 0) = ([], 1)"
proof -
  have h: "list_all has_positions [quad]"
    by (simp add: has_positions_def quad_def)
  have "collectTriangles threeRK [quad] =
        Some ([Triangle (Vertex 0 0 0) (Vertex 1 0 0) (Vertex 2 0 0)], 1)"
    using collectTriangles_filter [of "[]" threeRK "[quad]"]
    by (simp add: extract_quad candidates_quad excluded_def coords_def unusable_simps kept_def
        checked_def num_def)
  moreover have "fold add_mesh_triangles [nan_corner] ([], 0) = ([], 1)"
    unfolding collectTriangles_filter [of "[nan_corner]" threeRK "[]", THEN conjunct1]
    by (simp add: candidates_nan_corner excluded_def coords_def unusable_simps)
  ultimately show ?thesis
    using h collectTriangles_filter [of "[]" threeRK "[quad]"] by blast
qed

text \<open>
  The claim as stated fails: the second candidate of \<open>quad\<close> is excluded and counted,
  although none of its coordinates has absolute value at least 100; two of its
  vertices lie outside the position buffer. So is the candidate of \<open>nan_corner\<close>, one
  of whose coordinates is NaN.
\<close>

theorem collectTriangles_missing_vertex_counterexample:
  "collectTriangles threeRK [quad] =
     Some ([Triangle (Vertex 0 0 0) (Vertex 1 0 0) (Vertex 2 0 0)], 1)
   \<and> map_option (\<lambda>es. concat (map candidates es)) (extract_all threeRK [quad]) =
       Some [((Some (Num 0), Some (Num 0), Some (Num 0)),
              (Some (Num 1), Some (Num 0), Some (Num 0)),
              (Some (Num 2), Some (Num 0), Some (Num 0))),
             ((Some (Num 3), Some (Num 0), Some (Num 0)), (None, None, None), (None, None, None))]
   \<and> \<not> list_ex out_of_bound
         (coords ((Some (Num 3), Some (Num 0), Some (Num 0)), (None, None, None), (None, None, None)))
   \<and> fold add_mesh_triangles [nan_corner] ([], 0) = ([], 1)
   \<and> \<not> list_ex out_of_bound (concat (map coords (candidates nan_corner)))"
proof -
  have a: "collectTriangles threeRK [quad] =
        Some ([Triangle (Vertex 0 0 0) (Vertex 1 0 0) (Vertex 2 0 0)], 1)"
    by (simp add: collectTriangles_def collect_loop_assembled assembled_def extract_quad
        candidates_quad excluded_def coords_def unusable_simps kept_def checked_def num_def)
  have b: "map_option (\<lambda>es. concat (map candidates es)) (extract_all threeRK [quad]) =
       Some [((Some (Num 0), Some (Num 0), Some (Num 0)),
              (Some (Num 1), Some (Num 0), Some (Num 0)),
              (Some (Num 2), Some (Num 0), Some (Num 0))),
             ((Some (Num 3), Some (Num 0), Some (Num 0)), (None, None, None), (None, None, None))]"
    by (simp add: extract_quad candidates_quad)
  have c: "\<not> list_ex out_of_bound
      (coords ((Some (Num 3), Some (Num 0), Some (Num 0)), (None, None, None), (None, None, None)))"
    by (simp add: out_of_bound_def coords_def)
  have d: "fold add_mesh_triangles [nan_corner] ([], 0) = ([], 1)"
    unfolding fold_add_mesh_triangles
    by (simp add: assembled_def candidates_nan_corner excluded_def coords_def unusable_simps)
  have e: "\<not> list_ex out_of_bound (concat (map coords (candidates nan_corner)))"
    by (simp add: candidates_nan_corner out_of_bound_def coords_def)
  from a b c d e show ?thesis by blast
qed

subsection \<open>Ground alignment\<close>

lemma rnd_rel_error: "\<bar>rnd x - x\<bar> \<le> \<bar>x\<bar> / 2 ^ 53 + 2 powi (- 1075)"
proof (cases "x = 0")
  case True
  then show ?thesis by simp
next
  case False
  have e: "\<bar>rnd x - x\<bar> \<le> 2 powi expo x / 2" by (rule rnd_error)
  show ?thesis
  proof (cases "- 1074 < expo x")
    case True
    from expo_lower [OF False True] have "2 powi expo x * 2 ^ 52 \<le> \<bar>x\<bar>"
      by (simp add: powi_add powi_nat)
    then have "2 powi expo x / 2 \<le> \<bar>x\<bar> / 2 ^ 53" by simp
    moreover have "0 \<le> (2::real) powi (- 1075)" by simp
    ultimately show ?thesis using e by linarith
  next
    case False
    then have ex: "expo x = - 1074" using expo_ge [of x] by linarith
    have "(2::real) powi (- 1075 + 1) = 2 powi (- 1075) * 2"
      unfolding powi_add by simp
    then have "(2::real) powi (- 1074) / 2 = 2 powi (- 1075)" by simp
    with e have "\<bar>rnd x - x\<bar> \<le> 2 powi (- 1075)" by (simp only: ex)
    moreover have "0 \<le> \<bar>x\<bar> / 2 ^ 53" by simp
    ultimately show ?thesis by linarith
  qed
qed

lemma round64_bounded:
  assumes "\<bar>x\<bar> \<le> 2 ^ 1002"
  shows "round64 x = Num (rnd x)"
proof -
  have "rnd (2 ^ 1002) = (2::real) ^ 1002"
    by (rule rnd_grid [of _ 1 1002]) (simp_all add: powi_nat)
  from rnd_abs_le [OF assms this] have "\<bar>rnd x\<bar> \<le> 2 ^ 1002" .
  also have "\<dots> < (2::real) ^ 1024" by simp
  finally show ?thesis by (simp add: round64_def)
qed

lemma round64_mono:
  assumes "x \<le> y" "round64 x = Num r"
  shows "le64 (Num r) (round64 y)"
proof -
  from assms(2) have x: "\<bar>rnd x\<bar> < 2 ^ 1024" "r = rnd x"
    by (auto simp: round64_def Let_def split: if_splits)
  have m: "rnd x \<le> rnd y" using assms(1) by (rule rnd_mono)
  show ?thesis
  proof (cases "\<bar>rnd y\<bar> < 2 ^ 1024")
    case True
    then show ?thesis using m x by (simp add: round64_def le64_def)
  next
    case False
    show ?thesis
    proof (cases "0 < y")
      case True
      then show ?thesis using False by (simp add: round64_def le64_def)
    next
      case y: False
      then have "rnd y \<le> 0" using rnd_nonneg [of "- y"] by (simp add: rnd_minus)
      then have "rnd y \<le> - (2 ^ 1024)" using False by linarith
      then have "rnd x \<le> - (2 ^ 1024)" using m by linarith
      then show ?thesis using x(1) by linarith
    qed
  qed
qed

lemma fold_min_triangle64:
  "fold min_triangle64 ts m = fold (\<lambda>z m. min64 m z) (zs64 ts) m"
  by (induction ts arbitrary: m) (simp_all add: zs64_def min_triangle64_def)

lemma fold_min64_Num:
  "fold (\<lambda>z m. min64 m z) (map Num ms) (Num m) = Num (Min (insert m (set ms)))"
proof (induction ms arbitrary: m)
  case Nil
  then show ?case by simp
next
  case (Cons a ms)
  have "Min (insert (min m a) (set ms)) = Min (insert m (insert a (set ms)))"
    by (cases "set ms = {}") (simp_all add: min.assoc)
  then show ?case using Cons by simp
qed

lemma fold_min64_PInf:
  assumes "ms \<noteq> []"
  shows "fold (\<lambda>z m. min64 m z) (map Num ms) PInf = Num (Min (set ms))"
proof -
  obtain a as where ms: "ms = a # as" using assms by (cases ms) auto
  show ?thesis unfolding ms by (simp add: fold_min64_Num)
qed

lemma zs64_lift:
  "zs64 (map (map_triangle64 (lift_vertex64 c)) ts) = map (\<lambda>z. add64 z c) (zs64 ts)"
  by (induction ts) (simp_all add: zs64_def map_triangle64_def lift_vertex64_def)

lemma zs64_nonempty: "ts \<noteq> [] \<Longrightarrow> zs64 ts \<noteq> []"
  by (cases ts) (simp_all add: zs64_def)

lemma ground_error:
  fixes m :: real
  assumes "\<bar>m\<bar> \<le> 2 ^ 1000"
  shows "add64 (Num m) (add64 (Num (- m)) (Num 2.5)) = Num (rnd (m + rnd (- m + 2.5)))"
    and "add64 (Num (- m)) (Num 2.5) = Num (rnd (- m + 2.5))"
    and "\<bar>rnd (m + rnd (- m + 2.5)) - 2.5\<bar> \<le> (\<bar>m\<bar> + 3) / 2 ^ 52"
    and "is_binary64 (- m + 2.5) \<Longrightarrow> rnd (m + rnd (- m + 2.5)) = 2.5"
proof -
  let ?a = "- m + 2.5"
  let ?o = "rnd ?a"
  let ?s = "m + ?o"
  have big: "(2::real) ^ 1000 + 3 \<le> 2 ^ 1001" "(2::real) ^ 1001 + 2 ^ 1000 \<le> 2 ^ 1002"
    "(2::real) ^ 1001 \<le> 2 ^ 1002"
    by simp_all
  have a: "\<bar>?a\<bar> \<le> 2 ^ 1001" using assms big(1) by linarith
  then have a2: "\<bar>?a\<bar> \<le> 2 ^ 1002" using big(3) by linarith
  have ra: "round64 ?a = Num ?o" by (rule round64_bounded [OF a2])
  have "rnd (2 ^ 1001) = (2::real) ^ 1001"
    by (rule rnd_grid [of _ 1 1001]) (simp_all add: powi_nat)
  from rnd_abs_le [OF a this] have o: "\<bar>?o\<bar> \<le> 2 ^ 1001" .
  then have s: "\<bar>?s\<bar> \<le> 2 ^ 1002" using assms big(2) by linarith
  have rs: "round64 ?s = Num (rnd ?s)" by (rule round64_bounded [OF s])
  show 2: "add64 (Num (- m)) (Num 2.5) = Num ?o" using ra by simp
  show "add64 (Num m) (add64 (Num (- m)) (Num 2.5)) = Num (rnd ?s)"
    unfolding 2 using rs by simp
  define d :: real where "d = 2 powi (- 1075)"
  have d: "0 \<le> d" "d \<le> 1 / 2 ^ 60"
    by (simp_all add: d_def powi_neg field_simps)
  have e1: "\<bar>?o - ?a\<bar> \<le> \<bar>?a\<bar> / 2 ^ 53 + d"
    unfolding d_def by (rule rnd_rel_error)
  have e2: "\<bar>rnd ?s - ?s\<bar> \<le> \<bar>?s\<bar> / 2 ^ 53 + d"
    unfolding d_def by (rule rnd_rel_error)
  define o' where "o' = ?o"
  define r' where "r' = rnd (m + o')"
  have e1': "\<bar>o' - (- m + 5 / 2)\<bar> \<le> \<bar>- m + 5 / 2\<bar> / 2 ^ 53 + d"
    using e1 by (simp add: o'_def)
  have e2': "\<bar>r' - (m + o')\<bar> \<le> \<bar>m + o'\<bar> / 2 ^ 53 + d"
    using e2 by (simp add: o'_def r'_def)
  define u where "u = \<bar>o' - (- m + 5 / 2)\<bar>"
  define v where "v = \<bar>r' - (m + o')\<bar>"
  define t where "t = \<bar>m\<bar>"
  have "\<bar>- m + 5 / 2\<bar> \<le> t + 5 / 2" unfolding t_def by linarith
  then have "\<bar>- m + 5 / 2\<bar> / 2 ^ 53 \<le> (t + 5 / 2) / 2 ^ 53"
    by (simp add: divide_right_mono)
  with e1' have U: "u \<le> (t + 5 / 2) / 2 ^ 53 + d" unfolding u_def by linarith
  have "\<bar>m + o'\<bar> \<le> 5 / 2 + u" unfolding u_def by linarith
  then have "\<bar>m + o'\<bar> / 2 ^ 53 \<le> (5 / 2 + u) / 2 ^ 53"
    by (simp add: divide_right_mono)
  with e2' have V: "v \<le> (5 / 2 + u) / 2 ^ 53 + d" unfolding v_def by linarith
  have t0: "0 \<le> t" unfolding t_def by simp
  have "u + v \<le> (t + 3) / 2 ^ 52"
    using U V d t0 by (simp add: field_simps)
  moreover have "\<bar>r' - 5 / 2\<bar> \<le> u + v" unfolding u_def v_def by linarith
  ultimately have "\<bar>r' - 5 / 2\<bar> \<le> (\<bar>m\<bar> + 3) / 2 ^ 52"
    unfolding t_def by linarith
  then show "\<bar>rnd ?s - 2.5\<bar> \<le> (\<bar>m\<bar> + 3) / 2 ^ 52"
    by (simp add: o'_def r'_def)
  assume "is_binary64 ?a"
  then have "?o = ?a" using ra by (simp add: is_binary64_def)
  then have s52: "?s = 5 / 2" by simp
  have "rnd ?s = rnd (5 / 2)" by (rule arg_cong [OF s52])
  also have "\<dots> = 5 / 2"
    by (rule rnd_grid [of _ 5 "- 1"]) (simp_all add: powi_neg)
  finally show "rnd ?s = 2.5" by simp
qed


lemma least64_lift:
  assumes "ms \<noteq> []" "round64 (Min (set ms) + c) = Num r"
  shows "least64 (map (\<lambda>z. add64 z (Num c)) (map Num ms)) (Num r)"
proof -
  let ?M = "Min (set ms)"
  have fin: "finite (set ms)" "set ms \<noteq> {}" using assms(1) by simp_all
  have "?M \<in> set ms" using fin by (rule Min_in)
  then have "round64 (?M + c) \<in> (\<lambda>m. round64 (m + c)) ` set ms" by (rule imageI)
  then have mem: "Num r \<in> set (map (\<lambda>z. add64 z (Num c)) (map Num ms))"
    by (simp add: assms(2) comp_def)
  have "le64 (Num r) (round64 (m + c))" if "m \<in> set ms" for m
  proof -
    have "?M \<le> m" using fin(1) that by (rule Min_le)
    then have "?M + c \<le> m + c" by simp
    then show ?thesis using assms(2) by (rule round64_mono)
  qed
  then have "list_all (le64 (Num r)) (map (\<lambda>z. add64 z (Num c)) (map Num ms))"
    by (simp add: list_all_iff)
  with mem show ?thesis by (simp add: least64_def)
qed

lemma round64_int: "\<bar>n\<bar> < 2 ^ 53 \<Longrightarrow> round64 (of_int n) = Num (of_int n)"
  using is_binary64_int [of n] by (simp add: is_binary64_def)

lemma round64_small:
  "round64 0 = Num 0" "round64 2 = Num 2" "round64 4 = Num 4" "round64 (- 6) = Num (- 6)"
  "round64 10 = Num 10" "round64 (- 10) = Num (- 10)"
  using round64_int [of 0] round64_int [of 2] round64_int [of 4] round64_int [of "- 6"]
    round64_int [of 10] round64_int [of "- 10"]
  by simp_all

lemma round64_halves:
  "round64 (5 / 2) = Num (5 / 2)" "round64 (9 / 2) = Num (9 / 2)" "round64 (13 / 2) = Num (13 / 2)"
  using round64_grid [of "5 / 2" 5 "- 1"] round64_grid [of "9 / 2" 9 "- 1"]
    round64_grid [of "13 / 2" 13 "- 1"]
  by (simp_all add: powi_neg)

text \<open>
  C5 (as amended). For a non-empty triangle list and a scale factor \<open>s\<close>,
  \<open>transformTriangles64\<close> maps every vertex \<open>(x, y, z)\<close> to \<open>(x * s, - z * s, y * s)\<close> and
  then moves every vertex along z by \<open>- min_z + 2.5\<close>, where \<open>min_z\<close> is the least
  remapped z of the list and every product and sum is rounded to binary64. When the
  remapped z coordinates are finite and \<open>min_z\<close> is at most \<open>2 ^ 1000\<close> in absolute value,
  the least z coordinate of the result is the rounded sum of \<open>min_z\<close> and the rounded
  \<open>- min_z + 2.5\<close>; it differs from 2.5 by at most \<open>(\<bar>min_z\<bar> + 3) / 2 ^ 52\<close>, and it is
  exactly 2.5 when \<open>- min_z + 2.5\<close> is a binary64 number.
\<close>

theorem transformTriangles64_ground:
  assumes "triangles \<noteq> []"
  shows
    "(let remapped =
            map (map_triangle64
                  (\<lambda>v. Vertex64 (mul64 (x64 v) s) (mul64 (neg64 (z64 v)) s) (mul64 (y64 v) s)))
              triangles;
          min_z = fold (\<lambda>z m. min64 m z) (zs64 remapped) PInf
      in transformTriangles64 triangles s =
           map (map_triangle64
                 (\<lambda>v. Vertex64 (x64 v) (y64 v) (add64 (z64 v) (add64 (neg64 min_z) (Num 2.5)))))
             remapped
         \<and> (\<forall>ms. zs64 remapped = map Num ms \<and> \<bar>Min (set ms)\<bar> \<le> 2 ^ 1000 \<longrightarrow>
               min_z = Num (Min (set ms))
               \<and> (\<exists>r. least64 (zs64 (transformTriangles64 triangles s)) (Num r)
                     \<and> Num r = add64 (Num (Min (set ms))) (add64 (Num (- Min (set ms))) (Num 2.5))
                     \<and> \<bar>r - 2.5\<bar> \<le> (\<bar>Min (set ms)\<bar> + 3) / 2 ^ 52
                     \<and> (is_binary64 (- Min (set ms) + 2.5) \<longrightarrow> r = 2.5))))"
proof -
  let ?r = "map (map_triangle64 (remap_vertex64 s)) triangles"
  let ?m = "fold (\<lambda>z m. min64 m z) (zs64 ?r) PInf"
  let ?off = "add64 (neg64 ?m) (Num 2.5)"
  have rl: "remap_vertex64 s =
      (\<lambda>v. Vertex64 (mul64 (x64 v) s) (mul64 (neg64 (z64 v)) s) (mul64 (y64 v) s))"
    by (simp add: remap_vertex64_def fun_eq_iff)
  have ll: "lift_vertex64 c = (\<lambda>v. Vertex64 (x64 v) (y64 v) (add64 (z64 v) c))" for c
    by (simp add: lift_vertex64_def fun_eq_iff)
  have t: "transformTriangles64 triangles s = map (map_triangle64 (lift_vertex64 ?off)) ?r"
    by (simp add: transformTriangles64_def fold_min_triangle64 Let_def)
  have fin: "?m = Num (Min (set ms))
      \<and> (\<exists>r. least64 (zs64 (transformTriangles64 triangles s)) (Num r)
            \<and> Num r = add64 (Num (Min (set ms))) (add64 (Num (- Min (set ms))) (Num 2.5))
            \<and> \<bar>r - 2.5\<bar> \<le> (\<bar>Min (set ms)\<bar> + 3) / 2 ^ 52
            \<and> (is_binary64 (- Min (set ms) + 2.5) \<longrightarrow> r = 2.5))"
    if z: "zs64 ?r = map Num ms" and b: "\<bar>Min (set ms)\<bar> \<le> 2 ^ 1000" for ms
  proof -
    let ?M = "Min (set ms)"
    have "zs64 ?r \<noteq> []" using assms by (intro zs64_nonempty) simp
    then have ne: "ms \<noteq> []" using z by auto
    have m: "?m = Num ?M" unfolding z by (rule fold_min64_PInf [OF ne])
    note g = ground_error [OF b]
    have off: "add64 (neg64 (fold (\<lambda>z m. min64 m z) (map Num ms) PInf)) (Num 2.5) =
        Num (rnd (- ?M + 2.5))"
      unfolding fold_min64_PInf [OF ne] using g(2) by simp
    have "round64 (?M + rnd (- ?M + 2.5)) = Num (rnd (?M + rnd (- ?M + 2.5)))"
      using g(1) unfolding g(2) by simp
    from least64_lift [OF ne this]
    have "least64 (zs64 (transformTriangles64 triangles s)) (Num (rnd (?M + rnd (- ?M + 2.5))))"
      unfolding t zs64_lift z off .
    with m g(1,3,4) show ?thesis by auto
  qed
  from t fin show ?thesis
    unfolding Let_def rl [symmetric] ll [symmetric] by blast
qed

theorem transformTriangles64_ground_witness:
  "[slanted] \<noteq> []
   \<and> zs64 (map (map_triangle64
                 (\<lambda>v. Vertex64 (mul64 (x64 v) (Num 2)) (mul64 (neg64 (z64 v)) (Num 2))
                        (mul64 (y64 v) (Num 2))))
            [slanted]) = map Num [2, 4, 0]
   \<and> \<bar>Min (set [2, 4, 0 :: real])\<bar> \<le> 2 ^ 1000
   \<and> is_binary64 (- Min (set [2, 4, 0 :: real]) + 2.5)
   \<and> least64 (zs64 (transformTriangles64 [slanted] (Num 2))) (Num 2.5)"
proof -
  let ?ms = "[2, 4, 0 :: real]"
  have ne: "[slanted] \<noteq> []" by simp
  have z: "zs64 (map (map_triangle64
                 (\<lambda>v. Vertex64 (mul64 (x64 v) (Num 2)) (mul64 (neg64 (z64 v)) (Num 2))
                        (mul64 (y64 v) (Num 2))))
            [slanted]) = map Num ?ms"
    by (simp add: zs64_def map_triangle64_def slanted_def round64_small)
  have b: "\<bar>Min (set ?ms)\<bar> \<le> 2 ^ 1000" by simp
  have e: "is_binary64 (- Min (set ?ms) + 2.5)"
    by (simp add: is_binary64_def round64_halves)
  from transformTriangles64_ground [OF ne, of "Num 2"] z b
  obtain r where "least64 (zs64 (transformTriangles64 [slanted] (Num 2))) (Num r)"
    and "is_binary64 (- Min (set ?ms) + 2.5) \<longrightarrow> r = 2.5"
    unfolding Let_def by blast
  with e have "least64 (zs64 (transformTriangles64 [slanted] (Num 2))) (Num 2.5)"
    by blast
  with ne z b e show ?thesis by blast
qed

text \<open>
  The claim as stated fails: for the triangle with a corner at the height of the
  binary64 number nearest to -51.18 and the scale factor 10, the least z coordinate
  of the result is \<open>43980465111039 / 2 ^ 44\<close>, about 2.499999999999943.
\<close>

theorem transformTriangles64_rounding_counterexample:
  "is_binary64 (- 7202944654025687 / 2 ^ 47)
   \<and> transformTriangles64 [low_corner] (Num 10) =
       [Triangle64 (Vertex64 (Num 0) (Num 0) (Num (43980465111039 / 2 ^ 44)))
          (Vertex64 (Num 10) (Num 0) (Num (2261915320660787 / 2 ^ 42)))
          (Vertex64 (Num 0) (Num (- 10)) (Num (2261915320660787 / 2 ^ 42)))]
   \<and> least64 (zs64 (transformTriangles64 [low_corner] (Num 10))) (Num (43980465111039 / 2 ^ 44))
   \<and> (43980465111039 / 2 ^ 44 :: real) < 5 / 2"
proof -
  define y0 :: real where "y0 = - 7202944654025687 / 2 ^ 47"
  define z0 :: real where "z0 = - 9003680817532109 / 2 ^ 44"
  define off :: real where "off = 2261915320660787 / 2 ^ 42"
  define low :: real where "low = 43980465111039 / 2 ^ 44"
  have b: "is_binary64 (- 7202944654025687 / 2 ^ 47)"
    unfolding is_binary64_def
    by (subst round64_eval [of "- 47"]) (simp_all add: round_even_def)
  have m1: "mul64 (Num y0) (Num 10) = Num z0"
    by (simp add: y0_def z0_def, subst round64_eval [of "- 44"]) (simp_all add: round_even_def)
  have m2: "mul64 (Num 0) (Num 10) = Num 0" "mul64 (neg64 (Num 0)) (Num 10) = Num 0"
    "mul64 (Num 1) (Num 10) = Num 10" "mul64 (neg64 (Num 1)) (Num 10) = Num (- 10)"
    by (simp_all add: round64_small)
  have mn: "min64 (min64 (min64 PInf (Num z0)) (Num 0)) (Num 0) = Num z0"
    by (simp add: z0_def)
  have a1: "add64 (neg64 (Num z0)) (Num 2.5) = Num off"
    by (simp add: z0_def off_def, subst round64_eval [of "- 43"]) (simp_all add: round_even_def)
  have a2: "add64 (Num z0) (Num off) = Num low"
    by (simp add: z0_def off_def low_def, subst round64_eval [of "- 51"])
      (simp_all add: round_even_def)
  have a3: "add64 (Num 0) (Num off) = Num off"
    by (simp add: off_def, subst round64_eval [of "- 43"]) (simp_all add: round_even_def)
  have t: "transformTriangles64 [low_corner] (Num 10) =
       [Triangle64 (Vertex64 (Num 0) (Num 0) (Num low))
          (Vertex64 (Num 10) (Num 0) (Num off))
          (Vertex64 (Num 0) (Num (- 10)) (Num off))]"
    unfolding transformTriangles64_def low_corner_def y0_def [symmetric]
    by (simp only: Let_def list.map map_triangle64_def remap_vertex64_def min_triangle64_def
        lift_vertex64_def Vertex64.sel Triangle64.sel fold_simps m1 m2 mn a1 a2 a3 id_apply comp_apply)
  have l: "least64 (zs64 (transformTriangles64 [low_corner] (Num 10))) (Num low)"
    unfolding t by (simp add: least64_def zs64_def le64_def low_def off_def)
  have "(43980465111039 / 2 ^ 44 :: real) < 5 / 2" by simp
  with b t l show ?thesis
    unfolding low_def off_def by blast
qed

subsection \<open>Binary mesh encoding\<close>

lemma le32_roundtrip:
  "ucast (ucast w :: byte) OR push_bit 8 (ucast (ucast (drop_bit 8 w) :: byte))
     OR push_bit 16 (ucast (ucast (drop_bit 16 w) :: byte))
     OR push_bit 24 (ucast (ucast (drop_bit 24 w) :: byte)) = (w :: 32 word)"
  apply (rule bit_word_eqI)
  subgoal for n
    by (cases "n < 8"; cases "n < 16"; cases "n < 24") (auto simp: bit_simps)
  done

lemma length_le32 [simp]: "length (le32 w) = 4"
  by (simp add: le32_def)

lemma length_le16 [simp]: "length (le16 w) = 2"
  by (simp add: le16_def)

lemma length_record50 [simp]: "length (record50 pf tri) = 50"
  by (simp add: record50_def Let_def)

lemma write_triangle_append:
  assumes "length p = off" and "50 \<le> length rest"
  shows "write_triangle pf tri off (p @ rest) = Some (p @ record50 pf tri @ drop 50 rest)"
  using assms
  by (simp add: write_triangle_def setFloat32_def setUint16_def write_bytes_def record50_def Let_def)


lemma triangle_loop_append:
  assumes "length p = off" and "50 * length ts \<le> length rest"
  shows "triangle_loop pf ts off (p @ rest) =
         Some (p @ concat (map (record50 pf) ts) @ drop (50 * length ts) rest)"
  using assms
proof (induction ts arbitrary: p off rest)
  case Nil
  then show ?case by simp
next
  case (Cons t ts)
  have w: "write_triangle pf t off (p @ rest) = Some ((p @ record50 pf t) @ drop 50 rest)"
    using write_triangle_append [of p off rest pf t] Cons.prems by simp
  have "triangle_loop pf ts (off + 50) ((p @ record50 pf t) @ drop 50 rest) =
        Some ((p @ record50 pf t) @ concat (map (record50 pf) ts) @ drop (50 * length ts) (drop 50 rest))"
    using Cons.prems by (intro Cons.IH) simp_all
  then show ?case
    by (simp add: w add.commute)
qed

lemma header_loop_append:
  assumes "length p = i" and "i \<le> 80" and "80 - i \<le> length rest"
  shows "header_loop headerText i (p @ rest) =
         Some (p @ map (header_byte headerText) [i..<80] @ drop (80 - i) rest)"
  using assms
proof (induction "80 - i" arbitrary: i p rest)
  case 0
  then show ?case by (subst header_loop.simps) simp
next
  case (Suc n)
  then have lt: "i < 80" by linarith
  obtain r rs where rest: "rest = r # rs"
    using Suc.prems(3) lt by (cases rest) auto
  have w: "setUint8 i (header_byte headerText i) (p @ rest) = Some ((p @ [header_byte headerText i]) @ rs)"
    using Suc.prems(1) by (simp add: setUint8_def write_bytes_def rest)
  have ih: "header_loop headerText (Suc i) ((p @ [header_byte headerText i]) @ rs) =
        Some ((p @ [header_byte headerText i]) @ map (header_byte headerText) [Suc i..<80] @ drop (80 - Suc i) rs)"
    using Suc.prems Suc.hyps(2) lt rest by (intro Suc.hyps(1)) simp_all
  have "80 - i = Suc (80 - Suc i)"
    using lt by simp
  then have d: "drop (80 - i) rest = drop (80 - Suc i) rs"
    by (simp only: rest drop_Suc_Cons)
  show ?case
    using lt w ih
    by (subst header_loop.simps) (simp add: header_byte_def [symmetric] upt_conv_Cons d del: upt_Suc)
qed

lemma header_bytes: "map (header_byte headerText) [0..<80] = stl_header headerText"
proof (rule nth_equalityI)
  show "length (map (header_byte headerText) [0..<80]) = length (stl_header headerText)"
    by (simp add: stl_header_def)
next
  fix i assume "i < length (map (header_byte headerText) [0..<80])"
  then have "i < 80" by simp
  then show "map (header_byte headerText) [0..<80] ! i = stl_header headerText ! i"
    by (simp add: stl_header_def header_byte_def nth_append del: upt_Suc)
qed

lemma length_stl_header [simp]: "length (stl_header headerText) = 80"
  by (simp add: stl_header_def)

lemma length_concat_record50 [simp]: "length (concat (map (record50 pf) ts)) = 50 * length ts"
  by (induction ts) simp_all

lemma trianglesToSTL_layout:
  "trianglesToSTL pf triangles headerText =
     Some (stl_header headerText @ le32 (of_nat (length triangles)) @ concat (map (record50 pf) triangles))"
proof -
  let ?n = "length triangles"
  have h: "header_loop headerText 0 (ArrayBuffer (80 + 4 + ?n * 50)) =
           Some (stl_header headerText @ replicate (4 + ?n * 50) 0)"
    using header_loop_append [of "[]" 0 "replicate (80 + 4 + ?n * 50) 0" headerText]
    by (simp add: ArrayBuffer_def header_bytes)
  have c: "setUint32 80 (of_nat ?n) (stl_header headerText @ replicate (4 + ?n * 50) 0) =
           Some ((stl_header headerText @ le32 (of_nat ?n)) @ replicate (50 * ?n) 0)"
    by (simp add: setUint32_def write_bytes_def mult.commute)
  have t: "triangle_loop pf triangles 84 ((stl_header headerText @ le32 (of_nat ?n)) @ replicate (50 * ?n) 0) =
           Some ((stl_header headerText @ le32 (of_nat ?n)) @ concat (map (record50 pf) triangles)
                 @ drop (50 * ?n) (replicate (50 * ?n) 0))"
    by (rule triangle_loop_append) simp_all
  show ?thesis
    unfolding trianglesToSTL_def Let_def h Option.bind.bind_lunit c t
    by simp
qed

lemma read_u32_le32: "read_u32 (xs @ le32 w @ ys) (length xs) = w"
  by (simp add: read_u32_def le32_def le32_roundtrip)



lemma read_u32_drop: "read_u32 buf (a + b) = read_u32 (drop a buf) b"
  by (simp add: read_u32_def add.commute)

lemma length_concat_le32 [simp]: "length (concat (map le32 ws)) = 4 * length ws"
  by (induction ws) simp_all









text \<open>
  C10. For every triangle list and every header label, \<open>trianglesToSTL\<close> returns a
  buffer of exactly \<open>80 + 4 + 50 * triangleCount\<close> bytes, whatever the length of the
  label: the first 80 bytes are the first 80 character codes of the label (the low
  byte of each), padded with zeros when the label is shorter, so the count stays at
  offset 80 and the triangle records start at offset 84.
\<close>

theorem trianglesToSTL_length:
  "\<exists>buf. trianglesToSTL pf triangles headerText = Some buf
     \<and> length buf = 80 + 4 + 50 * length triangles
     \<and> take 80 buf = map ucast (take 80 headerText) @ replicate (80 - length headerText) 0
     \<and> take 4 (drop 80 buf) = le32 (of_nat (length triangles))
     \<and> drop 84 buf = concat (map (record50 pf) triangles)"
  by (simp add: trianglesToSTL_layout) (simp add: stl_header_def)



subsection \<open>Archive encoding\<close>

lemma crc_round_shift: "crc_round c = crc_shift c"
proof -
  have "(c AND 1 \<noteq> 0) = bit c 0"
    by (simp add: and_one_eq bit_0 mod_2_eq_odd)
  then show ?thesis
    by (simp only: crc_round_def crc_shift_def xor.commute)
qed

lemma crc_shift_xor: "crc_shift (a XOR b) = crc_shift a XOR crc_shift b"
  by (cases "bit a 0"; cases "bit b 0")
    (simp_all add: crc_shift_def bit_xor_iff drop_bit_xor ac_simps flip: bit.xor_self)

lemma crc_shift_pow_xor: "(crc_shift ^^ n) (a XOR b) = (crc_shift ^^ n) a XOR (crc_shift ^^ n) b"
  by (induction n) (simp_all add: crc_shift_xor)

lemma crc_shift_pow_high:
  "(\<forall>j<n. \<not> bit h j) \<Longrightarrow> (crc_shift ^^ n) h = drop_bit n h"
proof (induction n)
  case 0
  then show ?case by simp
next
  case (Suc n)
  then have "(crc_shift ^^ n) h = drop_bit n h" and "\<not> bit (drop_bit n h) 0"
    by (simp_all add: bit_drop_bit_eq)
  then have nb: "\<not> bit (drop_bit n h) 0" and "(crc_shift ^^ Suc n) h = crc_shift (drop_bit n h)"
    by simp_all
  note this(2)
  also have "crc_shift (drop_bit n h) = drop_bit 1 (drop_bit n h)"
    using nb by (simp add: crc_shift_def)
  also have "\<dots> = drop_bit (Suc n) h"
    by (simp add: drop_bit_drop_bit)
  finally show ?case .
qed

lemma mask_255: "(0xff :: 32 word) = mask 8"
  by (simp add: mask_eq_exp_minus_1)

lemma split_low_high:
  "(x :: 32 word) = (x AND 0xff) XOR push_bit 8 (drop_bit 8 x)"
  unfolding mask_255
  apply (rule bit_word_eqI)
  subgoal for n
    by (cases "n < 8") (auto simp: bit_simps)
  done

lemma low_bits_zero: "j < 8 \<Longrightarrow> \<not> bit (push_bit 8 (y :: 32 word)) j"
  by (simp add: bit_simps)

lemma crc_shift_pow8:
  "(crc_shift ^^ 8) x = drop_bit 8 x XOR (crc_shift ^^ 8) (x AND 0xff)"
proof -
  have "(crc_shift ^^ 8) x = (crc_shift ^^ 8) ((x AND 0xff) XOR push_bit 8 (drop_bit 8 x))"
    using split_low_high [of x] by simp
  also have "\<dots> = (crc_shift ^^ 8) (x AND 0xff) XOR (crc_shift ^^ 8) (push_bit 8 (drop_bit 8 x))"
    by (rule crc_shift_pow_xor)
  also have "(crc_shift ^^ 8) (push_bit 8 (drop_bit 8 x)) = drop_bit 8 (push_bit 8 (drop_bit 8 x))"
    by (rule crc_shift_pow_high) (simp add: low_bits_zero)
  also have "\<dots> = drop_bit 8 x"
    apply (rule bit_word_eqI)
    subgoal for n by (auto simp: bit_simps dest: bit_imp_le_length)
    done
  finally show ?thesis by (simp add: xor.commute)
qed

lemma table_lookup:
  "makeCRCTable ! unat ((y :: 32 word) AND 0xff) = (crc_shift ^^ 8) (y AND 0xff)"
proof -
  have "(y AND 0xff) \<le> 0xff" by (rule word_and_le1)
  then have "unat (y AND 0xff) < 256"
    by (simp add: word_le_nat_alt)
  then show ?thesis
    by (simp add: makeCRCTable_def crc_round_shift [abs_def])
qed

lemma crc_update_bitwise:
  "crc_update makeCRCTable b crc = (crc_shift ^^ 8) (crc XOR ucast b)"
proof -
  have "drop_bit 8 (crc XOR ucast b) = drop_bit 8 crc"
    apply (rule bit_word_eqI)
    subgoal for n by (auto simp: bit_simps dest: bit_imp_le_length)
    done
  then show ?thesis
    by (simp add: crc_update_def table_lookup crc_shift_pow8 [of "crc XOR ucast b"])
qed

lemma crc32_reference_eq: "crc32 data = crc32_reference data"
proof -
  have "crc_update makeCRCTable = (\<lambda>b c. (crc_shift ^^ 8) (c XOR ucast b))"
    by (simp add: fun_eq_iff crc_update_bitwise)
  moreover have "(x :: 32 word) XOR 0xffffffff = NOT x" for x
  proof -
    have "(0xffffffff :: 32 word) = - 1" by simp
    then show ?thesis by (simp only: bit.xor_one_right)
  qed
  moreover have "(0xffffffff :: 32 word) = NOT 0" by simp
  ultimately show ?thesis
    by (simp only: crc32_def crc32_reference_def Let_def)
qed

lemma pow8: "(f ^^ 8) x = f (f (f (f (f (f (f (f x)))))))"
  by (simp add: eval_nat_numeral)

text \<open>The reference gives the known CRC-32 of the one-letter message "a".\<close>

lemma crc32_check: "crc32_reference [0x61] = 0xE8B7BE43"
proof -
  have s0: "crc_shift (- 98) = 0x7FFFFFCF" by (simp add: crc_shift_def bit_0)
  have s1: "crc_shift 0x7FFFFFCF = 0xD2477CC7" by (simp add: crc_shift_def bit_0)
  have s2: "crc_shift 0xD2477CC7 = 0x849B3D43" by (simp add: crc_shift_def bit_0)
  have s3: "crc_shift 0x849B3D43 = 0xAFF51D81" by (simp add: crc_shift_def bit_0)
  have s4: "crc_shift 0xAFF51D81 = 0xBA420DE0" by (simp add: crc_shift_def bit_0)
  have s5: "crc_shift 0xBA420DE0 = 0x5D2106F0" by (simp add: crc_shift_def bit_0)
  have s6: "crc_shift 0x5D2106F0 = 0x2E908378" by (simp add: crc_shift_def bit_0)
  have s7: "crc_shift 0x2E908378 = 0x174841BC" by (simp add: crc_shift_def bit_0)
  have "(NOT 0 :: 32 word) XOR ucast (0x61 :: byte) = 0xFFFFFF9E" by simp
  then show ?thesis
    by (simp add: crc32_reference_def pow8 s0 s1 s2 s3 s4 s5 s6 s7)
qed

lemma createLocalHeader_bytes:
  "createLocalHeader nameBytes data = Some (local_header_bytes nameBytes data)"
  by (simp add: createLocalHeader_def local_header_bytes_def ArrayBuffer_def
      setUint32_def setUint16_def write_bytes_def)

lemma createCentralHeader_bytes:
  "createCentralHeader nameBytes data off = Some (central_header_bytes nameBytes data off)"
  by (simp add: createCentralHeader_def central_header_bytes_def ArrayBuffer_def
      setUint32_def setUint16_def write_bytes_def)

lemma createEOCD_bytes:
  "createEOCD n sz off = Some (eocd_bytes n sz off)"
  by (simp add: createEOCD_def eocd_bytes_def ArrayBuffer_def
      setUint32_def setUint16_def write_bytes_def)

lemma length_offsets_from [simp]: "length (offsets_from pf off files) = length files"
  by (induction files arbitrary: off) simp_all

lemma local_loop_result:
  "local_loop pf files lhs off =
     Some (lhs @ map (mk_local pf) (zip files (offsets_from pf off files)),
           off + length (concat (map (local_record pf) files)))"
proof (induction files arbitrary: lhs off)
  case Nil
  then show ?case by simp
next
  case (Cons f fs)
  show ?case
    by (simp add: createLocalHeader_bytes Cons Let_def mk_local_def local_record_def add.assoc)
qed

lemma central_loop_result:
  assumes "length offs = length files"
  shows "central_loop pf files (map (mk_local pf) (zip files offs)) chs off =
     Some (chs @ map (central_record pf) (zip files offs),
           off + length (concat (map (central_record pf) (zip files offs))))"
  using assms
proof (induction files arbitrary: offs chs off)
  case Nil
  then show ?case by simp
next
  case (Cons f fs)
  then obtain x xs where offs: "offs = x # xs" "length xs = length fs"
    by (cases offs) auto
  show ?case
    using Cons.IH [OF offs(2)]
    by (simp add: offs createCentralHeader_bytes Let_def mk_local_def central_record_def add.assoc)
qed

lemma write_bytes_append:
  assumes "length p = pos" and "length bs \<le> length rest"
  shows "write_bytes pos bs (p @ rest) = Some ((p @ bs) @ drop (length bs) rest)"
  using assms by (simp add: write_bytes_def)

lemma copy_locals_result:
  assumes "length offs = length files" and "length p = pos"
    and "length (concat (map (local_record pf) files)) \<le> length rest"
  shows "copy_locals (map (mk_local pf) (zip files offs)) pos (p @ rest) =
     Some (pos + length (concat (map (local_record pf) files)),
           (p @ concat (map (local_record pf) files)) @
             drop (length (concat (map (local_record pf) files))) rest)"
  using assms
proof (induction files arbitrary: offs p pos rest)
  case Nil
  then show ?case by simp
next
  case (Cons f fs)
  then obtain x xs where offs: "offs = x # xs" "length xs = length fs"
    by (cases offs) auto
  let ?h = "local_header_bytes (utf8_encode pf (fst f)) (snd f)"
  let ?d = "snd f"
  have rec: "local_record pf f = ?h @ ?d"
    by (simp add: local_record_def)
  have len: "length ?h + length ?d + length (concat (map (local_record pf) fs)) \<le> length rest"
    using Cons.prems(3) by (simp add: rec)
  have w1: "write_bytes pos ?h (p @ rest) = Some ((p @ ?h) @ drop (length ?h) rest)"
    using Cons.prems(2) len by (intro write_bytes_append) simp_all
  have w2: "write_bytes (pos + length ?h) ?d ((p @ ?h) @ drop (length ?h) rest) =
            Some (((p @ ?h) @ ?d) @ drop (length ?d) (drop (length ?h) rest))"
    using Cons.prems(2) len by (intro write_bytes_append) simp_all
  have ih: "copy_locals (map (mk_local pf) (zip fs xs)) (pos + length ?h + length ?d)
              (((p @ ?h) @ ?d) @ drop (length ?d) (drop (length ?h) rest)) =
            Some (pos + length ?h + length ?d + length (concat (map (local_record pf) fs)),
                  (((p @ ?h) @ ?d) @ concat (map (local_record pf) fs)) @
                    drop (length (concat (map (local_record pf) fs)))
                      (drop (length ?d) (drop (length ?h) rest)))"
    using Cons.prems(2) len by (intro Cons.IH [OF offs(2)]) simp_all
  have m: "map (mk_local pf) (zip (f # fs) offs) =
           \<lparr>lh_header = ?h, lh_data = ?d, lh_offset = x\<rparr> # map (mk_local pf) (zip fs xs)"
    by (simp add: offs mk_local_def)
  show ?case
    unfolding m copy_locals.simps LocalHeader.simps w1 Option.bind.bind_lunit w2 ih
    by (simp add: rec ac_simps)
qed

lemma copy_centrals_result:
  assumes "length p = pos" and "length (concat chs) \<le> length rest"
  shows "copy_centrals chs pos (p @ rest) =
     Some (pos + length (concat chs), (p @ concat chs) @ drop (length (concat chs)) rest)"
  using assms
proof (induction chs arbitrary: p pos rest)
  case Nil
  then show ?case by simp
next
  case (Cons c cs)
  have w: "write_bytes pos c (p @ rest) = Some ((p @ c) @ drop (length c) rest)"
    using Cons.prems by (intro write_bytes_append) simp_all
  have ih: "copy_centrals cs (pos + length c) ((p @ c) @ drop (length c) rest) =
        Some (pos + length c + length (concat cs),
              ((p @ c) @ concat cs) @ drop (length (concat cs)) (drop (length c) rest))"
    using Cons.prems by (intro Cons.IH) simp_all
  show ?case
    unfolding copy_centrals.simps w Option.bind.bind_lunit ih
    by (simp add: ac_simps)
qed

lemma length_eocd_bytes [simp]: "length (eocd_bytes n sz off) = 22"
  by (simp add: eocd_bytes_def)

lemma generate_layout: "generate pf files = Some (archive_bytes pf files)"
proof -
  let ?L = "local_part pf files" and ?C = "central_part pf files"
  let ?lhs = "map (mk_local pf) (zip files (offsets_from pf 0 files))"
  let ?chs = "map (central_record pf) (zip files (offsets_from pf 0 files))"
  let ?e = "eocd_bytes (length files) (length ?C) (length ?L)"
  have l: "local_loop pf files [] 0 = Some (?lhs, length ?L)"
    by (simp add: local_loop_result local_part_def)
  have c: "central_loop pf files ?lhs [] (length ?L) = Some (?chs, length ?L + length ?C)"
    using central_loop_result [of "offsets_from pf 0 files" files pf "[]" "length ?L"]
    by (simp add: central_part_def)
  have e: "createEOCD (length files) (length ?L + length ?C - length ?L) (length ?L) = Some ?e"
    by (simp add: createEOCD_bytes)
  have cl: "copy_locals ?lhs 0 (ArrayBuffer (length ?L + length ?C + length ?e)) =
            Some (length ?L, ?L @ replicate (length ?C + 22) 0)"
    using copy_locals_result [of "offsets_from pf 0 files" files "[]" 0 pf
        "replicate (length ?L + length ?C + 22) 0"]
    by (simp add: ArrayBuffer_def local_part_def)
  have cc: "copy_centrals ?chs (length ?L) (?L @ replicate (length ?C + 22) 0) =
            Some (length ?L + length ?C, (?L @ ?C) @ replicate 22 0)"
    using copy_centrals_result [of ?L "length ?L" ?chs "replicate (length ?C + 22) 0"]
    by (simp add: central_part_def)
  have w: "write_bytes (length ?L + length ?C) ?e ((?L @ ?C) @ replicate 22 0) = Some ((?L @ ?C) @ ?e)"
    using write_bytes_append [of "?L @ ?C" "length ?L + length ?C" ?e "replicate 22 0"] by simp
  show ?thesis
    unfolding generate_def l Option.bind.bind_lunit prod.case Let_def c e cl cc w
    by (simp add: archive_bytes_def)
qed

lemma le16_roundtrip:
  "ucast (ucast w :: byte) OR push_bit 8 (ucast (ucast (drop_bit 8 w) :: byte)) = (w :: 16 word)"
  apply (rule bit_word_eqI)
  subgoal for n
    by (cases "n < 8") (auto simp: bit_simps)
  done

lemma read_u16_le16: "read_u16 (xs @ le16 w @ ys) (length xs) = w"
  by (simp add: read_u16_def le16_def le16_roundtrip)

lemma read_u16_drop: "read_u16 buf (a + b) = read_u16 (drop a buf) b"
  by (simp add: read_u16_def add.commute)

lemma slice_drop: "slice buf (a + b) n = slice (drop a buf) b n"
  by (simp add: slice_def add.commute)

lemma read_u32_0: "read_u32 (le32 w @ ys) 0 = w"
  using read_u32_le32 [of "[]" w ys] by simp

lemma read_u16_0: "read_u16 (le16 w @ ys) 0 = w"
  using read_u16_le16 [of "[]" w ys] by simp

lemma length_local_header_bytes [simp]:
  "length (local_header_bytes nb d) = 30 + length nb"
  by (simp add: local_header_bytes_def)

lemma length_central_header_bytes [simp]:
  "length (central_header_bytes nb d off) = 46 + length nb"
  by (simp add: central_header_bytes_def)

lemma central_fields:
  "read_u32 (central_header_bytes nb d lo @ post) 16 = crc32 d"
  "read_u16 (central_header_bytes nb d lo @ post) 28 = of_nat (length nb)"
  "read_u32 (central_header_bytes nb d lo @ post) 42 = of_nat lo"
  "drop 46 (central_header_bytes nb d lo @ post) = nb @ post"
  using read_u32_0 read_u16_0
  by (simp_all add: central_header_bytes_def read_u32_drop [of _ 16 0, simplified]
      read_u16_drop [of _ 28 0, simplified] read_u32_drop [of _ 42 0, simplified])

lemma local_fields:
  "read_u32 (local_header_bytes nb d @ post) 0 = 0x04034b50"
  "read_u32 (local_header_bytes nb d @ post) 14 = crc32 d"
  "read_u32 (local_header_bytes nb d @ post) 22 = of_nat (length d)"
  "read_u16 (local_header_bytes nb d @ post) 26 = of_nat (length nb)"
  "drop 30 (local_header_bytes nb d @ post) = nb @ post"
  using read_u32_0 read_u16_0
  by (simp_all add: local_header_bytes_def read_u32_drop [of _ 14 0, simplified]
      read_u16_drop [of _ 26 0, simplified] read_u32_drop [of _ 22 0, simplified])

lemma eocd_fields:
  "read_u16 (eocd_bytes n sz off) 10 = of_nat n"
  "read_u32 (eocd_bytes n sz off) 16 = of_nat off"
  using read_u32_0 read_u16_0 [of _ "[]"] read_u16_0
  by (simp_all add: eocd_bytes_def read_u32_drop [of _ 16 0, simplified]
      read_u16_drop [of _ 10 0, simplified])

lemma unat_of_nat16: "n < 2 ^ 16 \<Longrightarrow> unat (of_nat n :: 16 word) = n"
  by (rule of_nat_inverse [OF refl]) simp

lemma unat_of_nat32: "n < 2 ^ 32 \<Longrightarrow> unat (of_nat n :: 32 word) = n"
  by (rule of_nat_inverse [OF refl]) simp

lemma parse_central_at:
  assumes "length nb < 2 ^ 16" and "lo < 2 ^ 32"
  shows "parse_central (pre @ central_header_bytes nb d lo @ post) (length pre) =
         ((nb, crc32 d, lo), length pre + 46 + length nb)"
proof -
  let ?buf = "pre @ central_header_bytes nb d lo @ post"
  have d: "drop (length pre) ?buf = central_header_bytes nb d lo @ post" by simp
  have "read_u16 ?buf (length pre + 28) = of_nat (length nb)"
    unfolding read_u16_drop d by (rule central_fields)
  then have n: "unat (read_u16 ?buf (length pre + 28)) = length nb"
    using assms(1) by (simp add: unat_of_nat16)
  have "read_u32 ?buf (length pre + 42) = of_nat lo"
    unfolding read_u32_drop d by (rule central_fields)
  then have l: "unat (read_u32 ?buf (length pre + 42)) = lo"
    using assms(2) by (simp add: unat_of_nat32)
  have c: "read_u32 ?buf (length pre + 16) = crc32 d"
    unfolding read_u32_drop d by (rule central_fields)
  have s: "slice ?buf (length pre + 46) (length nb) = nb"
    unfolding slice_drop d unfolding slice_def central_fields by simp
  show ?thesis
    by (simp only: parse_central_def Let_def n l c s)
qed

lemma parse_directory_central:
  assumes "list_all (\<lambda>fo. length (utf8_encode pf (fst (fst fo))) < 2 ^ 16 \<and> snd fo < 2 ^ 32) fos"
  shows "parse_directory (pre @ concat (map (central_record pf) fos) @ post) (length fos) (length pre) =
         map (\<lambda>fo. (utf8_encode pf (fst (fst fo)), crc32 (snd (fst fo)), snd fo)) fos"
  using assms
proof (induction fos arbitrary: pre)
  case Nil
  then show ?case by simp
next
  case (Cons fo fos)
  let ?nb = "utf8_encode pf (fst (fst fo))" and ?d = "snd (fst fo)" and ?lo = "snd fo"
  let ?rest = "concat (map (central_record pf) fos) @ post"
  have b: "length ?nb < 2 ^ 16" "?lo < 2 ^ 32" and bs: "list_all (\<lambda>fo. length (utf8_encode pf (fst (fst fo))) < 2 ^ 16 \<and> snd fo < 2 ^ 32) fos"
    using Cons.prems by simp_all
  have buf: "pre @ concat (map (central_record pf) (fo # fos)) @ post =
             pre @ central_header_bytes ?nb ?d ?lo @ ?rest"
    by (simp add: central_record_def)
  have buf2: "pre @ central_header_bytes ?nb ?d ?lo @ ?rest =
              (pre @ central_header_bytes ?nb ?d ?lo) @ concat (map (central_record pf) fos) @ post"
    by simp
  have pc: "parse_central (pre @ central_header_bytes ?nb ?d ?lo @ ?rest) (length pre) =
            ((?nb, crc32 ?d, ?lo), length pre + 46 + length ?nb)"
    by (rule parse_central_at [OF b])
  have ih: "parse_directory ((pre @ central_header_bytes ?nb ?d ?lo) @ concat (map (central_record pf) fos) @ post)
              (length fos) (length (pre @ central_header_bytes ?nb ?d ?lo)) =
            map (\<lambda>fo. (utf8_encode pf (fst (fst fo)), crc32 (snd (fst fo)), snd fo)) fos"
    by (rule Cons.IH [OF bs])
  have len: "length (pre @ central_header_bytes ?nb ?d ?lo) = length pre + 46 + length ?nb"
    by simp
  note ih' = ih [unfolded len append_assoc]
  let ?B = "pre @ central_header_bytes ?nb ?d ?lo @ ?rest"
  have "parse_directory ?B (length (fo # fos)) (length pre) =
        (?nb, crc32 ?d, ?lo) # parse_directory ?B (length fos) (length pre + 46 + length ?nb)"
    by (simp add: pc)
  also have "\<dots> = map (\<lambda>fo. (utf8_encode pf (fst (fst fo)), crc32 (snd (fst fo)), snd fo)) (fo # fos)"
    by (simp only: ih' list.map)
  finally show ?case
    by (simp only: buf)
qed

lemma parse_entry_at:
  assumes "length nb < 2 ^ 16" and "length d < 2 ^ 32"
  shows "parse_entry (pre @ (local_header_bytes nb d @ d) @ post) (cn, cc, length pre) =
         \<lparr>entry_offset = length pre, local_signature = 0x04034b50, entry_name = nb,
          entry_data = d, crc_local = crc32 d, central_name = cn, crc_central = cc\<rparr>"
proof -
  let ?buf = "pre @ (local_header_bytes nb d @ d) @ post"
  have d: "drop (length pre) ?buf = local_header_bytes nb d @ (d @ post)" by simp
  have sg: "read_u32 ?buf (length pre) = 0x04034b50"
    using read_u32_drop [of ?buf "length pre" 0] unfolding d by (simp add: local_fields)
  have "read_u16 ?buf (length pre + 26) = of_nat (length nb)"
    unfolding read_u16_drop d by (rule local_fields)
  then have n: "unat (read_u16 ?buf (length pre + 26)) = length nb"
    using assms(1) by (simp add: unat_of_nat16)
  have "read_u32 ?buf (length pre + 22) = of_nat (length d)"
    unfolding read_u32_drop d by (rule local_fields)
  then have sz: "unat (read_u32 ?buf (length pre + 22)) = length d"
    using assms(2) by (simp add: unat_of_nat32)
  have c: "read_u32 ?buf (length pre + 14) = crc32 d"
    unfolding read_u32_drop d by (rule local_fields)
  have nm: "slice ?buf (length pre + 30) (length nb) = nb"
    unfolding slice_drop d unfolding slice_def local_fields by simp
  have "slice ?buf (length pre + (30 + length nb)) (length d) = slice (drop (length pre) ?buf) (30 + length nb) (length d)"
    by (rule slice_drop)
  also have "\<dots> = d"
    unfolding d by (simp add: slice_def)
  finally have dt: "slice ?buf (length pre + 30 + length nb) (length d) = d"
    by (simp add: add.assoc)
  show ?thesis
    by (simp only: parse_entry_def prod.case Let_def n sz sg c nm dt)
qed

lemma offsets_split:
  assumes "(f, off) \<in> set (zip files (offsets_from pf base files))"
  shows "\<exists>pre post. concat (map (local_record pf) files) = pre @ local_record pf f @ post
                  \<and> off = base + length pre"
  using assms
proof (induction files arbitrary: base)
  case Nil
  then show ?case by simp
next
  case (Cons g gs)
  from Cons.prems consider "f = g" "off = base"
    | "(f, off) \<in> set (zip gs (offsets_from pf (base + length (local_record pf g)) gs))"
    by auto
  then show ?case
  proof cases
    case 1
    then have "concat (map (local_record pf) (g # gs)) = [] @ local_record pf f @ concat (map (local_record pf) gs)"
      by simp
    with 1 show ?thesis by (metis add.right_neutral list.size(3))
  next
    case 2
    from Cons.IH [OF 2] obtain pre post where
      "concat (map (local_record pf) gs) = pre @ local_record pf f @ post"
      "off = base + length (local_record pf g) + length pre"
      by blast
    then have "concat (map (local_record pf) (g # gs)) = (local_record pf g @ pre) @ local_record pf f @ post"
      "off = base + length (local_record pf g @ pre)"
      by simp_all
    then show ?thesis by blast
  qed
qed

lemma unzip_archive:
  assumes "zip_fits pf files"
  shows "unzip (archive_bytes pf files) =
         map (expected_entry pf) (zip files (offsets_from pf 0 files))"
proof -
  let ?L = "local_part pf files" and ?C = "central_part pf files"
  let ?E = "eocd_bytes (length files) (length ?C) (length ?L)"
  let ?buf = "archive_bytes pf files"
  let ?fos = "zip files (offsets_from pf 0 files)"
  have n16: "length files < 2 ^ 16"
    and names: "list_all (\<lambda>f. length (utf8_encode pf (fst f)) < 2 ^ 16) files"
    and l32: "length ?L < 2 ^ 32"
    using assms by (simp_all add: zip_fits_def)
  have buf: "?buf = (?L @ ?C) @ ?E" by (simp add: archive_bytes_def)
  have eo: "length ?buf - 22 = length (?L @ ?C)" by (simp add: buf)
  have de: "drop (length (?L @ ?C)) ?buf = ?E" unfolding buf by simp
  have "read_u16 ?buf (length (?L @ ?C) + 10) = of_nat (length files)"
    unfolding read_u16_drop de by (rule eocd_fields)
  then have cnt: "unat (read_u16 ?buf (length ?buf - 22 + 10)) = length files"
    unfolding eo using n16 by (simp add: unat_of_nat16)
  have "read_u32 ?buf (length (?L @ ?C) + 16) = of_nat (length ?L)"
    unfolding read_u32_drop de by (rule eocd_fields)
  then have cd: "unat (read_u32 ?buf (length ?buf - 22 + 16)) = length ?L"
    unfolding eo using l32 by (simp add: unat_of_nat32)
  have split: "\<exists>pre post. ?L = pre @ local_record pf f @ post \<and> off = length pre"
    if "(f, off) \<in> set ?fos" for f off
    using offsets_split [OF that] by (simp add: local_part_def)
  have bounds: "length (utf8_encode pf (fst f)) < 2 ^ 16 \<and> off < 2 ^ 32 \<and> length (snd f) < 2 ^ 32"
    if m: "(f, off) \<in> set ?fos" for f off
  proof -
    from split [OF m] obtain pre post where s: "?L = pre @ local_record pf f @ post" "off = length pre"
      by blast
    have "length ?L = length pre + length (local_record pf f) + length post"
      by (simp add: s(1))
    then have "off \<le> length ?L" "length (snd f) \<le> length ?L"
      using s(2) by (simp_all add: local_record_def)
    moreover have "f \<in> set files" using m by (rule set_zip_leftD)
    ultimately show ?thesis
      using names l32 by (auto simp: list_all_iff)
  qed
  have all: "list_all (\<lambda>fo. length (utf8_encode pf (fst (fst fo))) < 2 ^ 16 \<and> snd fo < 2 ^ 32) ?fos"
    using bounds by (auto simp: list_all_iff)
  have dir: "parse_directory ?buf (length files) (length ?L) =
             map (\<lambda>fo. (utf8_encode pf (fst (fst fo)), crc32 (snd (fst fo)), snd fo)) ?fos"
    using parse_directory_central [OF all, of ?L ?E]
    by (simp add: archive_bytes_def central_part_def)
  have ent: "parse_entry ?buf (utf8_encode pf (fst (fst fo)), crc32 (snd (fst fo)), snd fo) =
             expected_entry pf fo" if m: "fo \<in> set ?fos" for fo
  proof -
    obtain f off where fo: "fo = (f, off)" by (cases fo)
    from split [of f off] m fo obtain pre post where
      s: "?L = pre @ local_record pf f @ post" "off = length pre" by blast
    have b: "length (utf8_encode pf (fst f)) < 2 ^ 16" "length (snd f) < 2 ^ 32"
      using bounds [of f off] m fo by simp_all
    have "?buf = pre @ (local_header_bytes (utf8_encode pf (fst f)) (snd f) @ snd f) @ (post @ ?C @ ?E)"
      by (simp add: archive_bytes_def s(1) local_record_def)
    then show ?thesis
      using parse_entry_at [OF b, of pre "post @ ?C @ ?E"]
      by (simp add: fo s(2) expected_entry_def crc32_reference_eq)
  qed
  have "unzip ?buf = map (parse_entry ?buf) (parse_directory ?buf (length files) (length ?L))"
    by (simp only: unzip_def Let_def cnt cd)
  also have "\<dots> = map (expected_entry pf) ?fos"
    unfolding dir using ent by (simp add: comp_def)
  finally show ?thesis .
qed

text \<open>
  C7 (as amended). For every sequence of entries that fits the fields of the format
  (fewer than 65536 entries, every encoded name shorter than 65536 bytes, the local
  records together shorter than \<open>2^32\<close> bytes), \<open>generate\<close> returns a buffer from which
  a reader recovers, in insertion order, the UTF-8 name and the bytes of every entry;
  the offset in each central record is the offset from the start of the buffer at
  which the local record of the entry starts, and the checksums in the local and in
  the central record are the CRC-32 of the bytes with the reflected polynomial
  0xEDB88320 and the register complemented at the start and at the end.
\<close>

theorem generate_roundtrip:
  assumes "zip_fits pf files"
  shows "\<exists>buf. generate pf files = Some buf
           \<and> unzip buf = map (expected_entry pf) (zip files (offsets_from pf 0 files))"
  using unzip_archive [OF assms] by (simp add: generate_layout)

theorem generate_roundtrip_witness:
  "zip_fits example_platform [(str ''a.stl'', [1, 2, 3])]
   \<and> (\<exists>buf. generate example_platform [(str ''a.stl'', [1, 2, 3])] = Some buf
          \<and> unzip buf =
              [\<lparr>entry_offset = 0, local_signature = 0x04034b50,
                entry_name = [0x61, 0x2E, 0x73, 0x74, 0x6C], entry_data = [1, 2, 3],
                crc_local = crc32_reference [1, 2, 3],
                central_name = [0x61, 0x2E, 0x73, 0x74, 0x6C],
                crc_central = crc32_reference [1, 2, 3]\<rparr>])"
proof -
  have n: "utf8_encode example_platform (str ''a.stl'') = [0x61, 0x2E, 0x73, 0x74, 0x6C]"
    by (simp add: example_platform_def str_simps)
  have f: "zip_fits example_platform [(str ''a.stl'', [1, 2, 3])]"
    by (simp add: zip_fits_def local_part_def local_record_def n)
  from generate_roundtrip [OF f] show ?thesis
    using f by (simp add: expected_entry_def n)
qed

text \<open>
  The claim as stated fails: for an entry whose name has 65536 bytes, the 16-bit field
  for the length of the name in its local record holds 0, so no reader can recover
  the name.
\<close>

theorem generate_long_name_counterexample:
  "length (utf8_encode example_platform long_name) = 65536
   \<and> map_option (\<lambda>buf. unat (read_u16 buf 26)) (generate example_platform [(long_name, [])])
       = Some 0"
proof -
  have n: "length (utf8_encode example_platform long_name) = 65536"
    by (simp add: example_platform_def long_name_def)
  have "archive_bytes example_platform [(long_name, [])] =
        local_header_bytes (utf8_encode example_platform long_name) [] @
          (central_part example_platform [(long_name, [])] @
           eocd_bytes 1 (length (central_part example_platform [(long_name, [])]))
             (length (local_part example_platform [(long_name, [])])))"
    by (simp add: archive_bytes_def local_part_def local_record_def)
  then have "read_u16 (archive_bytes example_platform [(long_name, [])]) 26 =
             of_nat (length (utf8_encode example_platform long_name))"
    by (simp only: local_fields)
  then show ?thesis
    by (simp add: generate_layout n)
qed


subsection \<open>Export\<close>

lemma shouldInclude_has_positions: "shouldIncludeMesh m s \<Longrightarrow> has_positions m"
  by (auto simp: shouldIncludeMesh_def has_positions_def split: option.splits if_splits)

lemma collected_have_positions:
  "list_all has_positions (characterMeshes (collectMeshes ck))"
  "list_all has_positions (baseMeshes (collectMeshes ck))"
  by (auto simp: collectMeshes_routed routed_def list_all_iff accepted_def
      dest: shouldInclude_has_positions)

lemma collectTriangles_total:
  "list_all has_positions ms \<Longrightarrow> \<exists>r. collectTriangles rk ms = Some r"
  using extract_all_total [of ms rk]
  by (auto simp: collectTriangles_def collect_loop_assembled)

lemma mesh_file_total:
  "list_all has_positions ms \<Longrightarrow> \<exists>b. mesh_file rk pf ms sc label = Some b"
  using collectTriangles_total [of ms rk]
  by (auto simp: mesh_file_def trianglesToSTL_layout)

lemma bind_collect:
  "(collectTriangles rk ms \<bind> (\<lambda>(tris, skipped). trianglesToSTL pf (transformTriangles tris sc) label \<bind> f))
   = mesh_file rk pf ms sc label \<bind> f"
  by (cases "collectTriangles rk ms") (auto simp: mesh_file_def)

lemma exportCharacter_cases:
  assumes "env_CK env = Some ck" and "env_RK env = Some rk"
  shows "\<exists>charSTL baseSTL stl.
     mesh_file rk (env_platform env) (characterMeshes (collectMeshes ck))
       (scale_factor options) (str ''HeroForge Character'') = Some charSTL
     \<and> mesh_file rk (env_platform env) (baseMeshes (collectMeshes ck))
         (scale_factor options) (str ''HeroForge Base'') = Some baseSTL
     \<and> mesh_file rk (env_platform env)
         (characterMeshes (collectMeshes ck) @ baseMeshes (collectMeshes ck))
         (scale_factor options) (str ''HeroForge Export'') = Some stl
     \<and> exportCharacter env options =
        (if characterMeshes (collectMeshes ck) = [] \<and> baseMeshes (collectMeshes ck) = []
         then Some None
         else if separate_mode options \<and> baseMeshes (collectMeshes ck) \<noteq> [] then
           (if characterMeshes (collectMeshes ck) \<noteq> [] then
              Some (Some (archive_bytes (env_platform env)
                            [(file_base options @ str ''-character.stl'', charSTL),
                             (file_base options @ str ''-base.stl'', baseSTL)],
                          file_base options @ str ''.zip''))
            else
              Some (Some (archive_bytes (env_platform env)
                            [(file_base options @ str ''-base.stl'', baseSTL)],
                          file_base options @ str ''.zip'')))
         else Some (Some (stl, file_base options @ str ''.stl'')))"
proof -
  let ?cm = "collectMeshes ck"
  let ?pf = "env_platform env"
  obtain charSTL where c: "mesh_file rk ?pf (characterMeshes ?cm) (scale_factor options) (str ''HeroForge Character'') = Some charSTL"
    using mesh_file_total [OF collected_have_positions(1)] by blast
  obtain baseSTL where b: "mesh_file rk ?pf (baseMeshes ?cm) (scale_factor options) (str ''HeroForge Base'') = Some baseSTL"
    using mesh_file_total [OF collected_have_positions(2)] by blast
  have "list_all has_positions (characterMeshes ?cm @ baseMeshes ?cm)"
    using collected_have_positions [of ck] by simp
  then obtain stl where a: "mesh_file rk ?pf (characterMeshes ?cm @ baseMeshes ?cm) (scale_factor options) (str ''HeroForge Export'') = Some stl"
    using mesh_file_total by blast
  have a1: "characterMeshes ?cm = [] \<Longrightarrow>
      mesh_file rk ?pf (baseMeshes ?cm) (scale_factor options) (str ''HeroForge Export'') = Some stl"
    using a by simp
  have a2: "baseMeshes ?cm = [] \<Longrightarrow>
      mesh_file rk ?pf (characterMeshes ?cm) (scale_factor options) (str ''HeroForge Export'') = Some stl"
    using a by simp
  have "exportCharacter env options =
     (if characterMeshes ?cm = [] \<and> baseMeshes ?cm = [] then Some None
      else if separate_mode options \<and> baseMeshes ?cm \<noteq> [] then
        (if characterMeshes ?cm \<noteq> [] then
           Some (Some (archive_bytes ?pf
                         [(file_base options @ str ''-character.stl'', charSTL),
                          (file_base options @ str ''-base.stl'', baseSTL)],
                       file_base options @ str ''.zip''))
         else
           Some (Some (archive_bytes ?pf [(file_base options @ str ''-base.stl'', baseSTL)],
                       file_base options @ str ''.zip'')))
      else Some (Some (stl, file_base options @ str ''.stl'')))"
    unfolding exportCharacter_def Let_def assms prod.case option.case bind_collect
      file_base_def [symmetric] scale_factor_def [symmetric] separate_mode_def [symmetric]
    by (simp add: a a1 a2 b c addFile_def generate_layout)
  with a b c show ?thesis by blast
qed

lemma archive_entry_count:
  "read_u16 (archive_bytes pf files) (length (archive_bytes pf files) - 22 + 10) =
   of_nat (length files)"
proof -
  let ?L = "local_part pf files" and ?C = "central_part pf files"
  let ?E = "eocd_bytes (length files) (length ?C) (length ?L)"
  have buf: "archive_bytes pf files = (?L @ ?C) @ ?E" by (simp add: archive_bytes_def)
  have eo: "length (archive_bytes pf files) - 22 = length (?L @ ?C)" by (simp add: buf)
  have de: "drop (length (?L @ ?C)) (archive_bytes pf files) = ?E" unfolding buf by simp
  show ?thesis
    unfolding eo read_u16_drop de by (rule eocd_fields)
qed

lemma str_append: "str a @ str b = str (a @ b)"
  by (simp add: str_def)

lemma collectMeshes_pedestal:
  "collectMeshes \<lparr>activeDisplay = Some \<lparr>meshes = Some [(str ''base_01'', Some pedestal)]\<rparr>\<rparr> =
     \<lparr>characterMeshes = [], baseMeshes = [pedestal]\<rparr>"
  by (simp add: collectMeshes_def collect_slot_def pedestal_def
      shouldIncludeMesh_def isBaseMesh_def excluded_word_def plain_geometry_def
      tri_attr_def startsWith_def toLowerCase_def or_empty_def str_simps Let_def)

text \<open>
  C8 (as amended). When both globals of the page are defined: if no mesh was
  collected, \<open>exportCharacter\<close> downloads nothing. With \<open>separateBase\<close> true and a
  non-empty sequence of base meshes, it downloads one archive named
  \<open>{filename}.zip\<close>; the archive holds the binary mesh buffer of the character meshes
  under the name \<open>{filename}-character.stl\<close>, only when at least one character mesh
  was collected, followed by the binary mesh buffer of the base meshes under the name
  \<open>{filename}-base.stl\<close>. With \<open>separateBase\<close> false, or with no base meshes, and at
  least one mesh collected, it downloads a single binary mesh buffer of all meshes
  named \<open>{filename}.stl\<close>. No case throws.
\<close>

theorem exportCharacter_output:
  assumes "env_CK env = Some ck" and "env_RK env = Some rk"
  shows
    "(characterMeshes (collectMeshes ck) = [] \<and> baseMeshes (collectMeshes ck) = [] \<longrightarrow>
        exportCharacter env options = Some None)
     \<and> (separate_mode options \<and> baseMeshes (collectMeshes ck) \<noteq> []
          \<and> characterMeshes (collectMeshes ck) \<noteq> [] \<longrightarrow>
        (\<exists>charSTL baseSTL zipBuffer.
           mesh_file rk (env_platform env) (characterMeshes (collectMeshes ck))
             (scale_factor options) (str ''HeroForge Character'') = Some charSTL
           \<and> mesh_file rk (env_platform env) (baseMeshes (collectMeshes ck))
               (scale_factor options) (str ''HeroForge Base'') = Some baseSTL
           \<and> generate (env_platform env)
               [(file_base options @ str ''-character.stl'', charSTL),
                (file_base options @ str ''-base.stl'', baseSTL)] = Some zipBuffer
           \<and> exportCharacter env options =
               Some (Some (zipBuffer, file_base options @ str ''.zip''))))
     \<and> (separate_mode options \<and> baseMeshes (collectMeshes ck) \<noteq> []
          \<and> characterMeshes (collectMeshes ck) = [] \<longrightarrow>
        (\<exists>baseSTL zipBuffer.
           mesh_file rk (env_platform env) (baseMeshes (collectMeshes ck))
             (scale_factor options) (str ''HeroForge Base'') = Some baseSTL
           \<and> generate (env_platform env)
               [(file_base options @ str ''-base.stl'', baseSTL)] = Some zipBuffer
           \<and> exportCharacter env options =
               Some (Some (zipBuffer, file_base options @ str ''.zip''))))
     \<and> ((\<not> separate_mode options \<or> baseMeshes (collectMeshes ck) = [])
          \<and> (characterMeshes (collectMeshes ck) \<noteq> [] \<or> baseMeshes (collectMeshes ck) \<noteq> []) \<longrightarrow>
        (\<exists>stlBuffer.
           mesh_file rk (env_platform env)
             (characterMeshes (collectMeshes ck) @ baseMeshes (collectMeshes ck))
             (scale_factor options) (str ''HeroForge Export'') = Some stlBuffer
           \<and> exportCharacter env options =
               Some (Some (stlBuffer, file_base options @ str ''.stl''))))"
proof -
  from exportCharacter_cases [OF assms, of options] obtain charSTL baseSTL stl where
    c: "mesh_file rk (env_platform env) (characterMeshes (collectMeshes ck))
          (scale_factor options) (str ''HeroForge Character'') = Some charSTL"
    and b: "mesh_file rk (env_platform env) (baseMeshes (collectMeshes ck))
          (scale_factor options) (str ''HeroForge Base'') = Some baseSTL"
    and a: "mesh_file rk (env_platform env)
          (characterMeshes (collectMeshes ck) @ baseMeshes (collectMeshes ck))
          (scale_factor options) (str ''HeroForge Export'') = Some stl"
    and e: "exportCharacter env options =
        (if characterMeshes (collectMeshes ck) = [] \<and> baseMeshes (collectMeshes ck) = []
         then Some None
         else if separate_mode options \<and> baseMeshes (collectMeshes ck) \<noteq> [] then
           (if characterMeshes (collectMeshes ck) \<noteq> [] then
              Some (Some (archive_bytes (env_platform env)
                            [(file_base options @ str ''-character.stl'', charSTL),
                             (file_base options @ str ''-base.stl'', baseSTL)],
                          file_base options @ str ''.zip''))
            else
              Some (Some (archive_bytes (env_platform env)
                            [(file_base options @ str ''-base.stl'', baseSTL)],
                          file_base options @ str ''.zip'')))
         else Some (Some (stl, file_base options @ str ''.stl'')))"
    by blast
  show ?thesis
    unfolding e using a b c by (simp add: generate_layout)
qed

theorem exportCharacter_output_witness:
  "env_CK scenario_env = Some scenario \<and> env_RK scenario_env = Some threeRK
   \<and> separate_mode no_options
   \<and> baseMeshes (collectMeshes scenario) = [pedestal]
   \<and> characterMeshes (collectMeshes scenario) = [torso]
   \<and> map_option (map_option snd) (exportCharacter scenario_env no_options) =
       Some (Some (str ''heroforge-character.zip''))"
proof -
  have ck: "env_CK scenario_env = Some scenario" and rk: "env_RK scenario_env = Some threeRK"
    by (simp_all add: scenario_env_def)
  have s: "separate_mode no_options"
    by (simp add: separate_mode_def no_options_def)
  have f: "file_base no_options @ str ''.zip'' = str ''heroforge-character.zip''"
    by (simp add: file_base_def no_options_def str_append)
  have "map_option (map_option snd) (exportCharacter scenario_env no_options) =
        Some (Some (file_base no_options @ str ''.zip''))"
    using exportCharacter_output [OF ck rk, of no_options] s
    by (auto simp: collectMeshes_scenario)
  with ck rk s f show ?thesis
    by (simp add: collectMeshes_scenario)
qed

text \<open>
  The claim as stated fails: in the scene that holds the pedestal alone, \<open>separateBase\<close>
  is true and the base meshes are not empty, yet the archive holds one entry, not two.
\<close>

theorem exportCharacter_base_only_counterexample:
  "separate_mode no_options
   \<and> baseMeshes (collectMeshes \<lparr>activeDisplay = Some \<lparr>meshes = Some [(str ''base_01'', Some pedestal)]\<rparr>\<rparr>)
       = [pedestal]
   \<and> map_option (map_option (\<lambda>d. (unat (read_u16 (fst d) (length (fst d) - 22 + 10)), snd d)))
       (exportCharacter pedestal_env no_options) =
       Some (Some (1, str ''heroforge-character.zip''))"
proof -
  have s: "separate_mode no_options"
    by (simp add: separate_mode_def no_options_def)
  have f: "file_base no_options @ str ''.zip'' = str ''heroforge-character.zip''"
    by (simp add: file_base_def no_options_def str_append)
  have "map_option (map_option (\<lambda>d. (unat (read_u16 (fst d) (length (fst d) - 22 + 10)), snd d)))
       (exportCharacter pedestal_env no_options) =
       Some (Some (1, file_base no_options @ str ''.zip''))"
    using exportCharacter_cases [of pedestal_env _ threeRK no_options] s
    by (auto simp: pedestal_env_def collectMeshes_pedestal archive_entry_count)
  with s f show ?thesis
    by (simp add: collectMeshes_pedestal)
qed

end
